theory Spec2Isabelle
  imports Main
begin

section \<open>Strings\<close>

text \<open>
  Python strings are modelled as \<open>string\<close>, one \<open>char\<close> per code point below 256.
  The helpers below are the string operations the sources use:
  \<open>str.startswith\<close>, the \<open>in\<close> substring test, \<open>name.split('-')[-1]\<close>,
  \<open>int(...)\<close> on a decimal literal and the format \<open>{i:03d}\<close>.
\<close>

type_synonym domain = string

definition startswith :: "string \<Rightarrow> string \<Rightarrow> bool" where
  "startswith s p = (take (length p) s = p)"

fun contains :: "string \<Rightarrow> string \<Rightarrow> bool" where
  "contains sub [] = (sub = [])"
| "contains sub (c # cs) = (startswith (c # cs) sub \<or> contains sub cs)"

definition last_token :: "string \<Rightarrow> string" where
  "last_token name = rev (takeWhile (\<lambda>c. c \<noteq> CHR ''-'') (rev name))"

text \<open>The characters the pattern \<open>\s\<close> matches, among those below 256.\<close>

definition is_space :: "char \<Rightarrow> bool" where
  "is_space c = ((of_char c :: nat) \<in> {9, 10, 11, 12, 13, 28, 29, 30, 31, 32, 133, 160})"

definition is_digit :: "char \<Rightarrow> bool" where
  "is_digit c = (48 \<le> (of_char c :: nat) \<and> (of_char c :: nat) \<le> 57)"

definition digit_val :: "char \<Rightarrow> nat" where
  "digit_val c = of_char c - 48"

text \<open>
  The body of a decimal literal after its first digit: digits, each optionally
  preceded by one underscore.
\<close>

fun dec_body :: "nat \<Rightarrow> string \<Rightarrow> nat option" where
  "dec_body acc [] = Some acc"
| "dec_body acc [c] = (if is_digit c then Some (acc * 10 + digit_val c) else None)"
| "dec_body acc (c # d # ds) =
     (if is_digit c then dec_body (acc * 10 + digit_val c) (d # ds)
      else if c = CHR ''_'' \<and> is_digit d then dec_body (acc * 10 + digit_val d) ds
      else None)"

definition dec_literal :: "string \<Rightarrow> nat option" where
  "dec_literal s =
     (case s of [] \<Rightarrow> None
      | c # cs \<Rightarrow> if is_digit c then dec_body (digit_val c) cs else None)"

text \<open>
  \<open>int(s)\<close>: \<open>None\<close> stands for the \<open>ValueError\<close> it raises. The characters
  \<open>int\<close> skips around the literal are fewer than those \<open>\s\<close> matches: the
  separators 28 to 31 are not among them.
\<close>

definition is_int_space :: "char \<Rightarrow> bool" where
  "is_int_space c = ((of_char c :: nat) \<in> {9, 10, 11, 12, 13, 32, 133, 160})"

definition int_strip :: "string \<Rightarrow> string" where
  "int_strip s = rev (dropWhile is_int_space (rev (dropWhile is_int_space s)))"

definition py_int :: "string \<Rightarrow> int option" where
  "py_int s =
     (case int_strip s of [] \<Rightarrow> None
      | c # cs \<Rightarrow>
          if c = CHR ''-'' then map_option (\<lambda>n. - int n) (dec_literal cs)
          else if c = CHR ''+'' then map_option int (dec_literal cs)
          else map_option int (dec_literal (c # cs)))"

definition digit_char :: "nat \<Rightarrow> char" where
  "digit_char d = char_of (48 + d)"

fun dec :: "nat \<Rightarrow> string" where
  "dec n = (if n < 10 then [digit_char n] else dec (n div 10) @ [digit_char (n mod 10)])"

declare dec.simps [simp del]

text \<open>The format \<open>{i:03d}\<close> for \<open>i \<ge> 0\<close>.\<close>

definition fmt03 :: "nat \<Rightarrow> string" where
  "fmt03 i = replicate (3 - length (dec i)) (CHR ''0'') @ dec i"

section \<open>Names of the managed resources\<close>

text \<open>\<open>CloudflareManager.__init__\<close>: \<open>self.list_name\<close> and \<open>self.rule_name\<close>.\<close>

definition list_name_of :: "string \<Rightarrow> string" where
  "list_name_of prefix = ''['' @ prefix @ '']''"

definition rule_name_of :: "string \<Rightarrow> string" where
  "rule_name_of prefix = ''['' @ prefix @ ''] Block Ads''"

text \<open>The name built inside the loop: \<open>f"{self.list_name} - {i:03d}"\<close>.\<close>

definition indexed_name :: "string \<Rightarrow> nat \<Rightarrow> string" where
  "indexed_name prefix i = list_name_of prefix @ '' - '' @ fmt03 i"

definition MAX_LISTS :: nat where
  "MAX_LISTS = 298"

definition MAX_DOMAINS :: nat where
  "MAX_DOMAINS = MAX_LISTS * 1000"

section \<open>Data model\<close>

text \<open>
  A list object and a rule object as the remote API returns them and as the cache
  stores them. Identifiers are opaque in the sources (only compared and stored);
  they are modelled as natural numbers. \<open>rlists\<close> is the sequence of list
  identifiers in the rule's \<open>traffic\<close> expression.
\<close>

record cf_list =
  lid :: nat
  lname :: string

record cf_rule =
  rid :: nat
  rname :: string
  rlists :: "nat list"

text \<open>The cache: \<open>cache["lists"]\<close>, \<open>cache["rules"]\<close>, \<open>cache["mapping"]\<close>.\<close>

record cache =
  c_lists :: "cf_list list"
  c_rules :: "cf_rule list"
  c_mapping :: "nat \<Rightarrow> domain list option"

definition empty_cache :: cache where
  "empty_cache = \<lparr>c_lists = [], c_rules = [], c_mapping = (\<lambda>_. None)\<rparr>"

text \<open>The calls of \<open>src/cloudflare.py\<close>; the first three only read.\<close>

datatype call =
    GetLists
  | GetRules
  | GetListItems nat
  | CreateList string "domain list"
  | UpdateList nat "domain list" "domain list"
  | DeleteList nat
  | CreateRule string "nat list"
  | UpdateRule string nat "nat list"
  | DeleteRule nat

fun mutating :: "call \<Rightarrow> bool" where
  "mutating GetLists = False"
| "mutating GetRules = False"
| "mutating (GetListItems _) = False"
| "mutating _ = True"

text \<open>
  Every way the code leaves a function other than by returning. The first four are
  the calls of \<open>error(...)\<close> in \<open>update_resources\<close>; the others are Python exceptions.
\<close>

datatype error =
    DomainLimitExceeded
  | TooManyDomains nat
  | AtMaximumListCapacity
  | CannotCreateMoreLists nat
  | ValueError string
  | HTTPException string
  | RateLimitException string

text \<open>
  Modelled from the spec: \<open>error\<close> of \<open>src/__init__.py\<close> is not in the sources; the
  spec makes a capacity failure fatal (the process terminates with a message), so a
  call of \<open>error\<close> ends the pass. It terminates the process rather than raising an
  \<open>Exception\<close>, so \<open>except Exception\<close> does not catch it.
\<close>

fun is_exception :: "error \<Rightarrow> bool" where
  "is_exception (ValueError _) = True"
| "is_exception (HTTPException _) = True"
| "is_exception (RateLimitException _) = True"
| "is_exception _ = False"

fun capacity_error :: "error \<Rightarrow> bool" where
  "capacity_error DomainLimitExceeded = True"
| "capacity_error (TooManyDomains _) = True"
| "capacity_error AtMaximumListCapacity = True"
| "capacity_error (CannotCreateMoreLists _) = True"
| "capacity_error _ = False"

text \<open>
  The world a pass runs in: the remote store, the cache in memory (\<open>self.cache\<close>)
  and on disk, the mutating calls issued so far (oldest first), the warnings written
  by \<open>silent_error\<close> where a claim speaks of them, and the calls that fail after
  their retries are used up.
\<close>

record world =
  srv_lists :: "cf_list list"
  srv_items :: "nat \<Rightarrow> domain list option"
  srv_rules :: "cf_rule list"
  srv_next_id :: nat
  mem_cache :: cache
  disk_cache :: "cache option"
  mutations :: "call list"
  warnings :: "string list"
  faults :: "call \<Rightarrow> bool"

section \<open>State and exceptions\<close>

definition returnE :: "'a \<Rightarrow> 'w \<Rightarrow> (error + 'a) \<times> 'w" where
  "returnE x w = (Inr x, w)"

definition raiseE :: "error \<Rightarrow> 'w \<Rightarrow> (error + 'a) \<times> 'w" where
  "raiseE e w = (Inl e, w)"

definition bindE ::
  "('w \<Rightarrow> (error + 'a) \<times> 'w) \<Rightarrow> ('a \<Rightarrow> 'w \<Rightarrow> (error + 'b) \<times> 'w) \<Rightarrow> 'w \<Rightarrow> (error + 'b) \<times> 'w" where
  "bindE m f w = (case m w of (Inl e, w') \<Rightarrow> (Inl e, w') | (Inr x, w') \<Rightarrow> f x w')"

definition modify :: "('w \<Rightarrow> 'w) \<Rightarrow> 'w \<Rightarrow> (error + unit) \<times> 'w" where
  "modify f w = (Inr (), f w)"

section \<open>The remote API\<close>

text \<open>
  Modelled from the spec: \<open>cloudflare_gateway_request\<close> and the decorators \<open>retry\<close> and
  \<open>rate_limited_request\<close> of \<open>src/requests.py\<close> are not in the sources, nor is the remote
  service. One function per endpoint stands for a request with its retries: it fails
  with an \<open>HTTPException\<close> when the call is in \<open>faults\<close> or names a resource that does
  not exist, and otherwise acts on the store. A mutating request is recorded in
  \<open>mutations\<close> when it is issued. Removing an item that the list does not hold is
  rejected with the "not found in list" error of the spec.
\<close>

text \<open>Modelled from the spec: the error of a request that fails after its retries.\<close>

definition request_failed :: error where
  "request_failed = HTTPException ''request failed''"

text \<open>Modelled from the spec: the error of a request that names a resource the remote does not hold.\<close>

definition no_such_resource :: error where
  "no_such_resource = HTTPException ''404''"

text \<open>A mutating request is appended to the record of the calls issued.\<close>

definition issue :: "call \<Rightarrow> world \<Rightarrow> world" where
  "issue c w = w\<lparr>mutations := mutations w @ [c]\<rparr>"

text \<open>Modelled from the spec: \<open>GET /lists\<close>.\<close>

definition GET_lists :: "world \<Rightarrow> (error + cf_list list) \<times> world" where
  "GET_lists w = (if faults w GetLists then (Inl request_failed, w) else (Inr (srv_lists w), w))"

text \<open>Modelled from the spec: \<open>GET /rules\<close>.\<close>

definition GET_rules :: "world \<Rightarrow> (error + cf_rule list) \<times> world" where
  "GET_rules w = (if faults w GetRules then (Inl request_failed, w) else (Inr (srv_rules w), w))"

text \<open>Modelled from the spec: \<open>GET /lists/{id}/items?limit=1000\<close>, at most 1000 items.\<close>

definition GET_list_items :: "nat \<Rightarrow> world \<Rightarrow> (error + domain list) \<times> world" where
  "GET_list_items list_id w =
     (if faults w (GetListItems list_id) then (Inl request_failed, w)
      else case srv_items w list_id of
             None \<Rightarrow> (Inl no_such_resource, w)
           | Some items \<Rightarrow> (Inr (take 1000 items), w))"

text \<open>Modelled from the spec: \<open>POST /lists\<close>; the remote gives the new list an unused identifier.\<close>

definition POST_list :: "string \<Rightarrow> domain list \<Rightarrow> world \<Rightarrow> (error + cf_list) \<times> world" where
  "POST_list name domains w0 =
     (let w = issue (CreateList name domains) w0 in
      if faults w (CreateList name domains) then (Inl request_failed, w)
      else let lst = \<lparr>lid = srv_next_id w, lname = name\<rparr>
           in (Inr lst,
               w\<lparr>srv_lists := srv_lists w @ [lst],
                 srv_items := (srv_items w)(srv_next_id w \<mapsto> domains),
                 srv_next_id := Suc (srv_next_id w)\<rparr>))"

text \<open>Modelled from the spec: the text of the "not found in list" error, of the shape the pattern in \<open>update_list\<close> reads.\<close>

definition not_found_message :: "domain \<Rightarrow> string" where
  "not_found_message d =
     [CHR 0x22] @ ''message'' @ [CHR 0x22] @ '': '' @ [CHR 0x22]
       @ ''item to be removed, '' @ d @ '', not found in list'' @ [CHR 0x22]"

text \<open>Modelled from the spec: \<open>PATCH /lists/{id}\<close>; items are removed, then the new ones appended.\<close>

definition PATCH_list ::
  "nat \<Rightarrow> domain list \<Rightarrow> domain list \<Rightarrow> world \<Rightarrow> (error + unit) \<times> world" where
  "PATCH_list list_id removes appends w0 =
     (let w = issue (UpdateList list_id removes appends) w0 in
      if faults w (UpdateList list_id removes appends) then (Inl request_failed, w)
      else case srv_items w list_id of
             None \<Rightarrow> (Inl no_such_resource, w)
           | Some items \<Rightarrow>
               (case find (\<lambda>d. d \<notin> set items) removes of
                  Some d \<Rightarrow> (Inl (HTTPException (not_found_message d)), w)
                | None \<Rightarrow>
                    (let kept = filter (\<lambda>d. d \<notin> set removes) items
                     in (Inr (),
                         w\<lparr>srv_items := (srv_items w)
                              (list_id \<mapsto> kept @ filter (\<lambda>d. d \<notin> set kept) (remdups appends))\<rparr>))))"

text \<open>Modelled from the spec: \<open>DELETE /lists/{id}\<close>.\<close>

definition DELETE_list :: "nat \<Rightarrow> world \<Rightarrow> (error + unit) \<times> world" where
  "DELETE_list list_id w0 =
     (let w = issue (DeleteList list_id) w0 in
      if faults w (DeleteList list_id) then (Inl request_failed, w)
      else if list_id \<notin> lid ` set (srv_lists w) then (Inl no_such_resource, w)
      else (Inr (),
            w\<lparr>srv_lists := filter (\<lambda>l. lid l \<noteq> list_id) (srv_lists w),
              srv_items := (srv_items w)(list_id := None)\<rparr>))"

text \<open>Modelled from the spec: \<open>POST /rules\<close>.\<close>

definition POST_rule :: "string \<Rightarrow> nat list \<Rightarrow> world \<Rightarrow> (error + cf_rule) \<times> world" where
  "POST_rule rule_name list_ids w0 =
     (let w = issue (CreateRule rule_name list_ids) w0 in
      if faults w (CreateRule rule_name list_ids) then (Inl request_failed, w)
      else let r = \<lparr>rid = srv_next_id w, rname = rule_name, rlists = list_ids\<rparr>
           in (Inr r, w\<lparr>srv_rules := srv_rules w @ [r], srv_next_id := Suc (srv_next_id w)\<rparr>))"

text \<open>Modelled from the spec: \<open>PUT /rules/{id}\<close>.\<close>

definition PUT_rule :: "string \<Rightarrow> nat \<Rightarrow> nat list \<Rightarrow> world \<Rightarrow> (error + cf_rule) \<times> world" where
  "PUT_rule rule_name rule_id list_ids w0 =
     (let w = issue (UpdateRule rule_name rule_id list_ids) w0 in
      if faults w (UpdateRule rule_name rule_id list_ids) then (Inl request_failed, w)
      else if rule_id \<notin> rid ` set (srv_rules w) then (Inl no_such_resource, w)
      else let r = \<lparr>rid = rule_id, rname = rule_name, rlists = list_ids\<rparr>
           in (Inr r, w\<lparr>srv_rules := map (\<lambda>x. if rid x = rule_id then r else x) (srv_rules w)\<rparr>))"

text \<open>Modelled from the spec: \<open>DELETE /rules/{id}\<close>.\<close>

definition DELETE_rule :: "nat \<Rightarrow> world \<Rightarrow> (error + unit) \<times> world" where
  "DELETE_rule rule_id w0 =
     (let w = issue (DeleteRule rule_id) w0 in
      if faults w (DeleteRule rule_id) then (Inl request_failed, w)
      else if rule_id \<notin> rid ` set (srv_rules w) then (Inl no_such_resource, w)
      else (Inr (), w\<lparr>srv_rules := filter (\<lambda>r. rid r \<noteq> rule_id) (srv_rules w)\<rparr>))"

section \<open>The client: \<open>src/cloudflare.py\<close>\<close>

definition create_list :: "string \<Rightarrow> domain list \<Rightarrow> world \<Rightarrow> (error + cf_list) \<times> world" where
  "create_list name domains = POST_list name domains"

definition create_rule :: "string \<Rightarrow> nat list \<Rightarrow> world \<Rightarrow> (error + cf_rule) \<times> world" where
  "create_rule rule_name list_ids = POST_rule rule_name list_ids"

definition update_rule :: "string \<Rightarrow> nat \<Rightarrow> nat list \<Rightarrow> world \<Rightarrow> (error + cf_rule) \<times> world" where
  "update_rule rule_name rule_id list_ids = PUT_rule rule_name rule_id list_ids"

definition get_lists :: "string \<Rightarrow> world \<Rightarrow> (error + cf_list list) \<times> world" where
  "get_lists prefix_name =
     bindE GET_lists (\<lambda>lists. returnE (filter (\<lambda>l. startswith (lname l) prefix_name) lists))"

definition get_rules :: "string \<Rightarrow> world \<Rightarrow> (error + cf_rule list) \<times> world" where
  "get_rules rule_name_prefix =
     bindE GET_rules (\<lambda>rules. returnE (filter (\<lambda>r. startswith (rname r) rule_name_prefix) rules))"

definition delete_list :: "nat \<Rightarrow> world \<Rightarrow> (error + unit) \<times> world" where
  "delete_list list_id = DELETE_list list_id"

definition delete_rule :: "nat \<Rightarrow> world \<Rightarrow> (error + unit) \<times> world" where
  "delete_rule rule_id = DELETE_rule rule_id"

definition get_list_items :: "nat \<Rightarrow> world \<Rightarrow> (error + domain list) \<times> world" where
  "get_list_items list_id = GET_list_items list_id"

subsection \<open>\<open>update_list\<close> and its retry on "not found in list"\<close>

text \<open>
  \<open>re.search\<close> with the pattern of \<open>update_list\<close>,
  \<^verbatim>\<open>"message":\s*"(item to be removed, )?([^,]+)(, not found in list)?"\<close>,
  returning group 2 of the leftmost match. \<open>after_group2\<close> is what must follow group 2:
  the optional third group and the closing quote. Group 2 is greedy: the longest
  non-empty run without a comma after which the rest matches. Group 1 is tried first
  and given up only if no match follows it.
\<close>

definition quote :: string where
  "quote = [CHR 0x22]"

definition after_group2 :: "string \<Rightarrow> bool" where
  "after_group2 r = (startswith r ('', not found in list'' @ quote) \<or> startswith r quote)"

definition match_group2 :: "string \<Rightarrow> string option" where
  "match_group2 r =
     (let run = takeWhile (\<lambda>c. c \<noteq> CHR '','') r
      in find (\<lambda>g. after_group2 (drop (length g) r))
           (map (\<lambda>n. take n run) (rev [1..<Suc (length run)])))"

definition match_groups :: "string \<Rightarrow> string option" where
  "match_groups r =
     (if startswith r ''item to be removed, ''
      then (case match_group2 (drop 20 r) of Some g \<Rightarrow> Some g | None \<Rightarrow> match_group2 r)
      else match_group2 r)"

definition match_here :: "string \<Rightarrow> string option" where
  "match_here s =
     (let key = quote @ ''message'' @ quote @ '':''
      in if startswith s key
         then (let r = dropWhile is_space (drop (length key) s)
               in if startswith r quote then match_groups (drop 1 r) else None)
         else None)"

fun re_search :: "string \<Rightarrow> string option" where
  "re_search [] = None"
| "re_search (c # cs) =
     (case match_here (c # cs) of Some g \<Rightarrow> Some g | None \<Rightarrow> re_search cs)"

definition max_retries :: nat where
  "max_retries = 3"

text \<open>
  The loop \<open>for attempt in range(max_retries)\<close> of \<open>update_list\<close>. \<open>request\<close> is the
  \<open>PATCH\<close> issued with the current \<open>remove_list\<close> and the items to append; the state
  \<open>'w\<close> is whatever the request acts on. The result \<open>None\<close> is the final
  \<open>return None\<close>.
\<close>

fun update_attempts ::
  "(domain list \<Rightarrow> domain list \<Rightarrow> 'w \<Rightarrow> (error + 'r) \<times> 'w) \<Rightarrow> nat list \<Rightarrow>
   domain list \<Rightarrow> domain list \<Rightarrow> 'w \<Rightarrow> (error + 'r option) \<times> 'w" where
  "update_attempts request [] remove_list append_items w = (Inr None, w)"
| "update_attempts request (attempt # rest) remove_list append_items w =
     (case request remove_list append_items w of
        (Inr result, w') \<Rightarrow> (Inr (Some result), w')
      | (Inl e, w') \<Rightarrow>
          (case e of
             HTTPException msg \<Rightarrow>
               if contains ''not found in list'' msg \<and> attempt < max_retries - 1
               then (case re_search msg of
                       Some not_found_domain \<Rightarrow>
                         update_attempts request rest (remove1 not_found_domain remove_list)
                           append_items w'
                     | None \<Rightarrow> (Inl e, w'))
               else (Inl e, w')
           | _ \<Rightarrow> (Inl e, w')))"

definition update_list ::
  "(domain list \<Rightarrow> domain list \<Rightarrow> 'w \<Rightarrow> (error + 'r) \<times> 'w) \<Rightarrow>
   domain list \<Rightarrow> domain list \<Rightarrow> 'w \<Rightarrow> (error + 'r option) \<times> 'w" where
  "update_list request remove_items append_items =
     update_attempts request [0..<max_retries] remove_items append_items"

section \<open>The cache helpers\<close>

text \<open>
  Modelled from the spec: \<open>src/utils.py\<close> is not in the sources. \<open>save_cache\<close> writes
  the cache in memory to disk; \<open>load_cache\<close> reads it back and returns an empty
  structure if there is none.
\<close>

definition save_cache :: "world \<Rightarrow> (error + unit) \<times> world" where
  "save_cache = modify (\<lambda>w. w\<lparr>disk_cache := Some (mem_cache w)\<rparr>)"

text \<open>Modelled from the spec: \<open>utils.load_cache\<close>, an empty structure if there is no file.\<close>

definition load_cache :: "world \<Rightarrow> world" where
  "load_cache w =
     w\<lparr>mem_cache := (case disk_cache w of None \<Rightarrow> empty_cache | Some c \<Rightarrow> c)\<rparr>"

text \<open>
  Modelled from the spec: the cache-assisted reads of \<open>src/utils.py\<close>. What the cache
  holds is returned without a remote read; otherwise the remote is read, and the
  result stored in the cache and saved.
\<close>

definition get_current_lists :: "string \<Rightarrow> world \<Rightarrow> (error + cf_list list) \<times> world" where
  "get_current_lists list_name w =
     (if c_lists (mem_cache w) \<noteq> [] then (Inr (c_lists (mem_cache w)), w)
      else bindE (get_lists list_name) (\<lambda>current_lists.
           bindE (modify (\<lambda>w. w\<lparr>mem_cache := (mem_cache w)\<lparr>c_lists := current_lists\<rparr>\<rparr>)) (\<lambda>_.
           bindE save_cache (\<lambda>_. returnE current_lists))) w)"

text \<open>Modelled from the spec: \<open>utils.get_current_rules\<close>, cache first, else the remote.\<close>

definition get_current_rules :: "string \<Rightarrow> world \<Rightarrow> (error + cf_rule list) \<times> world" where
  "get_current_rules rule_name w =
     (if c_rules (mem_cache w) \<noteq> [] then (Inr (c_rules (mem_cache w)), w)
      else bindE (get_rules rule_name) (\<lambda>current_rules.
           bindE (modify (\<lambda>w. w\<lparr>mem_cache := (mem_cache w)\<lparr>c_rules := current_rules\<rparr>\<rparr>)) (\<lambda>_.
           bindE save_cache (\<lambda>_. returnE current_rules))) w)"

text \<open>Modelled from the spec: the assignment \<open>cache["mapping"][list_id] = items\<close> made by the helpers; the source makes the same assignment in the loop.\<close>

definition set_mapping :: "nat \<Rightarrow> domain list \<Rightarrow> world \<Rightarrow> (error + unit) \<times> world" where
  "set_mapping list_id items =
     modify (\<lambda>w. w\<lparr>mem_cache := (mem_cache w)\<lparr>c_mapping := (c_mapping (mem_cache w))(list_id \<mapsto> items)\<rparr>\<rparr>)"

text \<open>Modelled from the spec: \<open>utils.get_list_items_cached\<close>, cache first, else the remote.\<close>

definition get_list_items_cached :: "nat \<Rightarrow> world \<Rightarrow> (error + domain list) \<times> world" where
  "get_list_items_cached list_id w =
     (case c_mapping (mem_cache w) list_id of
        Some items \<Rightarrow> (Inr items, w)
      | None \<Rightarrow>
          bindE (get_list_items list_id) (\<lambda>items.
          bindE (set_mapping list_id items) (\<lambda>_.
          bindE save_cache (\<lambda>_. returnE items))) w)"

text \<open>
  Modelled from the spec: \<open>extract_list_ids\<close> gives the set of list identifiers a rule
  references, and the empty set for no rule.
\<close>

definition extract_list_ids :: "cf_rule option \<Rightarrow> nat set" where
  "extract_list_ids rule = (case rule of None \<Rightarrow> {} | Some r \<Rightarrow> set (rlists r))"

text \<open>Modelled from the spec: \<open>silent_error\<close> of \<open>src/__init__.py\<close> writes a warning and returns.\<close>

definition silent_error :: "string \<Rightarrow> world \<Rightarrow> world" where
  "silent_error msg w = w\<lparr>warnings := warnings w @ [msg]\<rparr>"

fun str :: "error \<Rightarrow> string" where
  "str (ValueError m) = m"
| "str (HTTPException m) = m"
| "str (RateLimitException m) = m"
| "str _ = []"

section \<open>The converge pass: \<open>update_resources\<close>\<close>

text \<open>
  Python sets of domains are modelled as lists without duplicates, in one fixed
  order; \<open>list(remaining_domains)[:n]\<close> takes the first \<open>n\<close> of that order. The
  pass is cut into its stages, each named after what the source computes there.
\<close>

text \<open>
  Lines 46 to 56: the loop over \<open>orphaned_lists[:MAX_LISTS]\<close>. A deletion that raises
  an \<open>Exception\<close> is reported by \<open>silent_error\<close> and the loop goes on.
\<close>

fun delete_orphaned_lists :: "cf_list list \<Rightarrow> int \<Rightarrow> world \<Rightarrow> (error + int) \<times> world" where
  "delete_orphaned_lists [] current_list_count w = (Inr current_list_count, w)"
| "delete_orphaned_lists (lst # rest) current_list_count w =
     (case delete_list (lid lst) w of
        (Inr _, w') \<Rightarrow>
          (if current_list_count - 1 < int MAX_LISTS then (Inr (current_list_count - 1), w')
           else delete_orphaned_lists rest (current_list_count - 1) w')
      | (Inl e, w') \<Rightarrow>
          (if is_exception e
           then delete_orphaned_lists rest current_list_count
                  (silent_error (''Failed to delete list '' @ lname lst @ '': '' @ str e) w')
           else (Inl e, w')))"

text \<open>Lines 32 to 59: inventory of the remote lists, orphan cleanup and the check of the list count.\<close>

definition reclaim :: "string \<Rightarrow> world \<Rightarrow> (error + cf_rule list) \<times> world" where
  "reclaim prefix =
     bindE (get_lists (list_name_of prefix)) (\<lambda>all_cf_lists.
     bindE (get_current_rules (rule_name_of prefix)) (\<lambda>current_rules.
       let cgp_rule = find (\<lambda>rule. rname rule = rule_name_of prefix) current_rules;
           active_list_ids = extract_list_ids cgp_rule;
           orphaned_lists = filter (\<lambda>lst. lid lst \<notin> active_list_ids) all_cf_lists
       in bindE (delete_orphaned_lists (take MAX_LISTS orphaned_lists) (int (length all_cf_lists)))
            (\<lambda>current_list_count.
               if current_list_count \<ge> int MAX_LISTS then raiseE AtMaximumListCapacity
               else returnE current_rules)))"

text \<open>Lines 64 to 67: \<open>list_id_to_domains\<close>, in the order of \<open>current_lists\<close>.\<close>

fun list_id_to_domains ::
  "cf_list list \<Rightarrow> world \<Rightarrow> (error + (nat \<times> domain list) list) \<times> world" where
  "list_id_to_domains [] = returnE []"
| "list_id_to_domains (lst # rest) =
     bindE (get_list_items_cached (lid lst)) (\<lambda>items.
     bindE (list_id_to_domains rest) (\<lambda>m. returnE ((lid lst, remdups items) # m)))"

text \<open>
  Lines 61 to 73: \<open>current_lists\<close> and \<open>remaining_domains\<close>. The keys of
  \<open>domain_to_list_id\<close> are the domains of all the lists read.
\<close>

definition inventory ::
  "string \<Rightarrow> domain list \<Rightarrow> world \<Rightarrow> (error + cf_list list \<times> domain list) \<times> world" where
  "inventory prefix domains_to_block =
     bindE (get_current_lists (list_name_of prefix)) (\<lambda>current_lists.
     bindE (list_id_to_domains current_lists) (\<lambda>m.
       returnE (current_lists,
                filter (\<lambda>d. d \<notin> set (concat (map snd m))) (remdups domains_to_block))))"

text \<open>Line 76: the dictionary \<open>list_name_to_id\<close>; a later list of the same name wins.\<close>

definition list_name_to_id :: "cf_list list \<Rightarrow> string \<Rightarrow> nat option" where
  "list_name_to_id current_lists = map_of (rev (map (\<lambda>lst. (lname lst, lid lst)) current_lists))"

definition dict_keys :: "cf_list list \<Rightarrow> string list" where
  "dict_keys current_lists = rev (remdups (rev (map lname current_lists)))"

text \<open>Line 77: \<open>int(name.split('-')[-1])\<close> for every name; the first failure raises.\<close>

fun parse_indexes :: "string list \<Rightarrow> error + int list" where
  "parse_indexes [] = Inr []"
| "parse_indexes (name # names) =
     (case py_int (last_token name) of
        None \<Rightarrow> Inl (ValueError (last_token name))
      | Some i \<Rightarrow> (case parse_indexes names of Inl e \<Rightarrow> Inl e | Inr is \<Rightarrow> Inr (i # is)))"

text \<open>
  Lines 77 to 83: \<open>all_indexes\<close>, in ascending order.
  \<open>fold max existing_indexes needed_lists\<close> is \<open>max(existing_indexes + [needed_lists])\<close>.
\<close>

definition all_indexes :: "cf_list list \<Rightarrow> nat \<Rightarrow> error + nat list" where
  "all_indexes current_lists n =
     (case parse_indexes (dict_keys current_lists) of
        Inl e \<Rightarrow> Inl e
      | Inr parsed \<Rightarrow>
          (let existing_indexes = sort parsed;
               needed_lists = (int n + 999) div 1000;
               max_index = (if existing_indexes \<noteq> [] then fold max existing_indexes needed_lists
                            else needed_lists);
               max_index = min max_index (int MAX_LISTS)
           in Inr [1..<nat max_index + 1]))"

definition liftE :: "error + 'a \<Rightarrow> 'w \<Rightarrow> (error + 'a) \<times> 'w" where
  "liftE r w = (r, w)"

text \<open>
  Lines 88 to 132: the body of the loop for index \<open>i\<close>, on the loop's variables
  \<open>remaining_domains\<close> and \<open>new_list_ids\<close>.
\<close>

definition process_index ::
  "string \<Rightarrow> domain list \<Rightarrow> (string \<Rightarrow> nat option) \<Rightarrow> nat \<Rightarrow> domain list \<times> nat list \<Rightarrow>
   world \<Rightarrow> (error + domain list \<times> nat list) \<times> world" where
  "process_index prefix domains_to_block name_to_id i st =
     (let remaining_domains = fst st; new_list_ids = snd st;
          list_name = indexed_name prefix i
      in case name_to_id list_name of
           Some list_id \<Rightarrow>
             bindE (get_list_items list_id) (\<lambda>items.
               let current_values = remdups items;
                   remove_items = filter (\<lambda>d. d \<notin> set domains_to_block) current_values;
                   chunk = filter (\<lambda>d. d \<notin> set remove_items) current_values;
                   new_items = (if length chunk < 1000
                                then take (1000 - length chunk) remaining_domains else []);
                   chunk' = chunk @ filter (\<lambda>d. d \<notin> set chunk) new_items;
                   remaining_domains' = filter (\<lambda>d. d \<notin> set new_items) remaining_domains
               in bindE (if remove_items \<noteq> [] \<or> new_items \<noteq> []
                         then bindE (update_list (PATCH_list list_id) remove_items new_items)
                                (\<lambda>_. set_mapping list_id chunk')
                         else returnE ())
                    (\<lambda>_. returnE (remaining_domains', new_list_ids @ [list_id])))
         | None \<Rightarrow>
             if remaining_domains \<noteq> [] then
               if length new_list_ids \<ge> MAX_LISTS
               then raiseE (CannotCreateMoreLists (length remaining_domains))
               else
                 (let needed_items = min 1000 (length remaining_domains);
                      new_items = take needed_items remaining_domains;
                      remaining_domains' = filter (\<lambda>d. d \<notin> set new_items) remaining_domains
                  in bindE (create_list list_name new_items) (\<lambda>lst.
                     bindE (modify (\<lambda>w. w\<lparr>mem_cache :=
                              (mem_cache w)\<lparr>c_lists := c_lists (mem_cache w) @ [lst]\<rparr>\<rparr>)) (\<lambda>_.
                     bindE (set_mapping (lid lst) new_items) (\<lambda>_.
                     returnE (remaining_domains', new_list_ids @ [lid lst])))))
             else returnE (remaining_domains, new_list_ids))"

fun process_indexes ::
  "string \<Rightarrow> domain list \<Rightarrow> (string \<Rightarrow> nat option) \<Rightarrow> nat list \<Rightarrow> domain list \<times> nat list \<Rightarrow>
   world \<Rightarrow> (error + domain list \<times> nat list) \<times> world" where
  "process_indexes prefix domains_to_block name_to_id [] st = returnE st"
| "process_indexes prefix domains_to_block name_to_id (i # rest) st =
     bindE (process_index prefix domains_to_block name_to_id i st)
       (process_indexes prefix domains_to_block name_to_id rest)"

text \<open>Lines 134 to 150: the rule is rewritten only if its set of lists changes.\<close>

definition sync_rule ::
  "string \<Rightarrow> cf_rule list \<Rightarrow> nat list \<Rightarrow> world \<Rightarrow> (error + unit) \<times> world" where
  "sync_rule prefix current_rules new_list_ids =
     (let cgp_rule = find (\<lambda>rule. rname rule = rule_name_of prefix) current_rules;
          cgp_list_ids = extract_list_ids cgp_rule
      in bindE
           (case cgp_rule of
              Some r \<Rightarrow>
                if set new_list_ids \<noteq> cgp_list_ids
                then bindE (update_rule (rule_name_of prefix) (rid r) new_list_ids) (\<lambda>updated_rule.
                       modify (\<lambda>w. w\<lparr>mem_cache := (mem_cache w)\<lparr>c_rules := [updated_rule]\<rparr>\<rparr>))
                else returnE ()
            | None \<Rightarrow>
                bindE (create_rule (rule_name_of prefix) new_list_ids) (\<lambda>rule.
                  modify (\<lambda>w. w\<lparr>mem_cache :=
                    (mem_cache w)\<lparr>c_rules := c_rules (mem_cache w) @ [rule]\<rparr>\<rparr>)))
           (\<lambda>_. save_cache))"

text \<open>Lines 61 to 132: from the inventory to the list of the lists in use.\<close>

definition assign_domains ::
  "string \<Rightarrow> domain list \<Rightarrow> world \<Rightarrow> (error + nat list) \<times> world" where
  "assign_domains prefix domains_to_block =
     bindE (inventory prefix domains_to_block) (\<lambda>found.
       let current_lists = fst found; remaining_domains = snd found
       in bindE (liftE (all_indexes current_lists (length domains_to_block))) (\<lambda>indexes.
          bindE (process_indexes prefix domains_to_block (list_name_to_id current_lists) indexes
                   (remaining_domains, []))
            (\<lambda>st. returnE (snd st))))"

definition update_resources :: "string \<Rightarrow> domain list \<Rightarrow> world \<Rightarrow> (error + unit) \<times> world" where
  "update_resources prefix domains_to_block =
     (if length domains_to_block > 300000 then raiseE DomainLimitExceeded
      else if length domains_to_block > MAX_DOMAINS
      then raiseE (TooManyDomains (length domains_to_block))
      else bindE (reclaim prefix) (\<lambda>current_rules.
           bindE (assign_domains prefix domains_to_block) (\<lambda>new_list_ids.
           sync_rule prefix current_rules new_list_ids)))"

text \<open>
  \<open>main\<close> with the action \<open>run\<close>: the manager is built, which loads the cache, and
  the pass runs. Modelled from the spec: \<open>utils.is_running_in_github_actions\<close> and
  \<open>utils.delete_cache\<close> are not in the sources; the first is the parameter
  \<open>in_github_actions\<close>, the second removes the cache file.
\<close>

definition main_run ::
  "bool \<Rightarrow> string \<Rightarrow> domain list \<Rightarrow> world \<Rightarrow> (error + unit) \<times> world" where
  "main_run in_github_actions prefix domains_to_block w =
     bindE (update_resources prefix domains_to_block) (\<lambda>_.
       if in_github_actions then modify (\<lambda>w. w\<lparr>disk_cache := None\<rparr>) else returnE ())
       (load_cache w)"

section \<open>Teardown: \<open>delete_resources\<close>\<close>




section \<open>Downloads: \<open>DomainConverter.download_file\<close>\<close>

text \<open>
  One call of the body of \<open>download_file\<close>; the decorator \<open>retry\<close> around it is
  not in the sources. \<open>urlparse\<close> and \<open>urljoin\<close> are Python's \<open>urllib.parse\<close>
  functions and are parameters. The network is the parameter \<open>net\<close>: what a
  \<open>GET\<close> on a connection returns, \<open>Inl\<close> for the text of the exception that
  \<open>conn.request\<close> or \<open>conn.getresponse\<close> raises. The function returns, with its
  result, the requests it has sent, oldest first.
\<close>

record parsed_url =
  scheme :: string
  netloc :: string
  path :: string
  params :: string
  query :: string
  fragment :: string

datatype read_result = ReadFails string | Undecodable | Data string

record response =
  status :: nat
  location :: "string option"
  body :: read_result

record request =
  https :: bool
  host :: string
  target :: string

definition max_redirects :: nat where
  "max_redirects = 10"

definition redirect_status :: "nat \<Rightarrow> bool" where
  "redirect_status s = (s \<in> {301, 302, 303, 307, 308})"

text \<open>Lines 63 to 66 and 73: the first request sends \<open>parsed_url.path\<close> only.\<close>

definition first_request :: "parsed_url \<Rightarrow> request" where
  "first_request parsed = \<lparr>https = (scheme parsed = ''https''), host = netloc parsed, target = path parsed\<rparr>"

text \<open>Lines 103 to 118: the request sent to a redirect target.\<close>

definition full_path :: "parsed_url \<Rightarrow> string" where
  "full_path parsed =
     path parsed
     @ (if params parsed \<noteq> [] then '';'' @ params parsed else [])
     @ (if query parsed \<noteq> [] then ''?'' @ query parsed else [])
     @ (if fragment parsed \<noteq> [] then ''#'' @ fragment parsed else [])"

definition redirect_request :: "parsed_url \<Rightarrow> request" where
  "redirect_request parsed =
     \<lparr>https = (scheme parsed = ''https''), host = netloc parsed, target = full_path parsed\<rparr>"

text \<open>
  Lines 84 to 124: the loop \<open>while response.status in (301, 302, 303, 307, 308)\<close>,
  on the variables \<open>url\<close>, \<open>response\<close> and \<open>redirect_count\<close>, and the requests sent.
\<close>

function follow_redirects ::
  "(string \<Rightarrow> parsed_url) \<Rightarrow> (string \<Rightarrow> string \<Rightarrow> string) \<Rightarrow> (request \<Rightarrow> string + response) \<Rightarrow>
   string \<Rightarrow> response \<Rightarrow> nat \<Rightarrow> request list \<Rightarrow> (error + string \<times> response) \<times> request list" where
  "follow_redirects urlparse urljoin net url resp redirect_count sent =
     (if redirect_status (status resp) then
        (case location resp of
           None \<Rightarrow> (Inr (url, resp), sent)
         | Some loc \<Rightarrow>
             if loc = [] then (Inr (url, resp), sent)
             else if redirect_count + 1 > max_redirects
             then (Inl (HTTPException (''Too many redirects ('' @ dec max_redirects @ '') for '' @ url)), sent)
             else
               (let loc' = (if netloc (urlparse loc) = [] then urljoin url loc else loc);
                    rq = redirect_request (urlparse loc')
                in case net rq of
                     Inl e \<Rightarrow>
                       (Inl (HTTPException (''Network error during redirect for '' @ loc' @ '': '' @ e)),
                        sent @ [rq])
                   | Inr resp' \<Rightarrow>
                       follow_redirects urlparse urljoin net loc' resp' (redirect_count + 1) (sent @ [rq])))
      else (Inr (url, resp), sent))"
  by pat_completeness auto
termination
  by (relation "measure (\<lambda>(urlparse, urljoin, net, url, resp, redirect_count, sent). 11 - redirect_count)")
     (auto simp: max_redirects_def)

declare follow_redirects.simps [simp del]

text \<open>Lines 127 to 148: the status check and the read of the body.\<close>

definition finish_download :: "string \<Rightarrow> response \<Rightarrow> error + string" where
  "finish_download url resp =
     (if status resp \<noteq> 200 then
        (let error_message = ''Failed to download file from '' @ url @ '', status code: '' @ dec (status resp)
         in if status resp \<ge> 500 then Inl (HTTPException error_message)
            else if status resp = 429 then Inl (RateLimitException error_message)
            else Inl (HTTPException error_message))
      else case body resp of
             ReadFails e \<Rightarrow> Inl (HTTPException (''Network error reading response from '' @ url @ '': '' @ e))
           | Undecodable \<Rightarrow> Inl (ValueError ''utf-8'')
           | Data data \<Rightarrow> Inr data)"

definition download_file ::
  "(string \<Rightarrow> parsed_url) \<Rightarrow> (string \<Rightarrow> string \<Rightarrow> string) \<Rightarrow> (request \<Rightarrow> string + response) \<Rightarrow>
   string \<Rightarrow> (error + string) \<times> request list" where
  "download_file urlparse urljoin net url =
     (let rq = first_request (urlparse url)
      in case net rq of
           Inl e \<Rightarrow> (Inl (HTTPException (''Network error downloading '' @ url @ '': '' @ e)), [rq])
         | Inr resp \<Rightarrow>
             (case follow_redirects urlparse urljoin net url resp 0 [rq] of
                (Inl err, sent) \<Rightarrow> (Inl err, sent)
              | (Inr (url', resp'), sent) \<Rightarrow> (finish_download url' resp', sent)))"

subsection \<open>Redirect following, as a specification\<close>

text \<open>
  The description of redirect following to compare \<open>download_file\<close> with; it is
  written from the words of the claim and uses none of the definitions above that
  embed the code. A response redirects if its status is one of the five and it has
  a non-empty \<open>Location\<close>. The request reissued against a target URL goes to the
  target's host, over TLS if the target's scheme is \<open>https\<close>, and asks for the
  target's path followed by its parameters, query and fragment, each with its
  separator and left out if empty. \<open>hops\<close> follows redirecting responses for at
  most \<open>n\<close> more hops and returns the requests it sends. With \<open>from_original\<close> a
  relative \<open>Location\<close> is resolved against the URL the download started from, as
  the spec words it; without, against the URL of the request that was redirected.
\<close>

definition redirecting :: "response \<Rightarrow> bool" where
  "redirecting resp =
     (status resp \<in> {301, 302, 303, 307, 308} \<and> location resp \<noteq> None \<and> location resp \<noteq> Some [])"

definition with_separator :: "string \<Rightarrow> string \<Rightarrow> string" where
  "with_separator sep part = (if part = [] then [] else sep @ part)"

definition request_to :: "parsed_url \<Rightarrow> request" where
  "request_to u =
     \<lparr>https = (scheme u = ''https''), host = netloc u,
      target = concat [path u, with_separator '';'' (params u), with_separator ''?'' (query u),
                       with_separator ''#'' (fragment u)]\<rparr>"

definition too_many_redirects :: "string \<Rightarrow> error" where
  "too_many_redirects url = HTTPException (''Too many redirects (10) for '' @ url)"

fun hops ::
  "bool \<Rightarrow> (string \<Rightarrow> parsed_url) \<Rightarrow> (string \<Rightarrow> string \<Rightarrow> string) \<Rightarrow> (request \<Rightarrow> string + response) \<Rightarrow>
   nat \<Rightarrow> string \<Rightarrow> string \<Rightarrow> response \<Rightarrow> (error + string \<times> response) \<times> request list" where
  "hops from_original urlparse urljoin net n original url resp =
     (if redirecting resp then
        (case n of
           0 \<Rightarrow> (Inl (too_many_redirects url), [])
         | Suc m \<Rightarrow>
             (let loc = the (location resp);
                  base = (if from_original then original else url);
                  target_url = (if netloc (urlparse loc) = [] then urljoin base loc else loc);
                  rq = request_to (urlparse target_url)
              in case net rq of
                   Inl e \<Rightarrow>
                     (Inl (HTTPException (''Network error during redirect for '' @ target_url @ '': '' @ e)), [rq])
                 | Inr resp' \<Rightarrow>
                     (case hops from_original urlparse urljoin net m original target_url resp' of
                        (r, sent) \<Rightarrow> (r, rq # sent))))
      else (Inr (url, resp), []))"

definition download_by_hops ::
  "bool \<Rightarrow> (string \<Rightarrow> parsed_url) \<Rightarrow> (string \<Rightarrow> string \<Rightarrow> string) \<Rightarrow> (request \<Rightarrow> string + response) \<Rightarrow>
   string \<Rightarrow> (error + string) \<times> request list" where
  "download_by_hops from_original urlparse urljoin net url =
     (let rq = \<lparr>https = (scheme (urlparse url) = ''https''), host = netloc (urlparse url),
                target = path (urlparse url)\<rparr>
      in case net rq of
           Inl e \<Rightarrow> (Inl (HTTPException (''Network error downloading '' @ url @ '': '' @ e)), [rq])
         | Inr resp \<Rightarrow>
             (case hops from_original urlparse urljoin net 10 url url resp of
                (Inl err, sent) \<Rightarrow> (Inl err, rq # sent)
              | (Inr (url', resp'), sent) \<Rightarrow> (finish_download url' resp', rq # sent)))"

declare hops.simps [simp del]

text \<open>
  \<open>urlparse\<close> and \<open>urljoin\<close> on the URLs of the examples, with the values Python
  gives for them, and two networks: one with a chain of two redirects, the second
  relative, and one that redirects every request.
\<close>

definition no_url :: parsed_url where
  "no_url = \<lparr>scheme = [], netloc = [], path = [], params = [], query = [], fragment = []\<rparr>"

definition urlparse_example :: "string \<Rightarrow> parsed_url" where
  "urlparse_example u =
     (if u = ''http://a.example/dir/list.txt''
      then no_url\<lparr>scheme := ''http'', netloc := ''a.example'', path := ''/dir/list.txt''\<rparr>
      else if u = ''http://b.example/new/list.txt?v=2''
      then no_url\<lparr>scheme := ''http'', netloc := ''b.example'', path := ''/new/list.txt'', query := ''v=2''\<rparr>
      else if u = ''http://b.example/new/final.txt''
      then no_url\<lparr>scheme := ''http'', netloc := ''b.example'', path := ''/new/final.txt''\<rparr>
      else if u = ''http://a.example/dir/final.txt''
      then no_url\<lparr>scheme := ''http'', netloc := ''a.example'', path := ''/dir/final.txt''\<rparr>
      else no_url\<lparr>path := u\<rparr>)"

definition urljoin_example :: "string \<Rightarrow> string \<Rightarrow> string" where
  "urljoin_example base u =
     (if base = ''http://b.example/new/list.txt?v=2'' \<and> u = ''final.txt''
      then ''http://b.example/new/final.txt''
      else if base = ''http://a.example/dir/list.txt'' \<and> u = ''final.txt''
      then ''http://a.example/dir/final.txt''
      else u)"

definition net_example :: "request \<Rightarrow> string + response" where
  "net_example rq =
     (if rq = \<lparr>https = False, host = ''a.example'', target = ''/dir/list.txt''\<rparr>
      then Inr \<lparr>status = 301, location = Some ''http://b.example/new/list.txt?v=2'', body = Data []\<rparr>
      else if rq = \<lparr>https = False, host = ''b.example'', target = ''/new/list.txt?v=2''\<rparr>
      then Inr \<lparr>status = 302, location = Some ''final.txt'', body = Data []\<rparr>
      else if rq = \<lparr>https = False, host = ''b.example'', target = ''/new/final.txt''\<rparr>
      then Inr \<lparr>status = 200, location = None, body = Data ''ads.example''\<rparr>
      else Inr \<lparr>status = 404, location = None, body = Data []\<rparr>)"

definition net_loop :: "request \<Rightarrow> string + response" where
  "net_loop rq = Inr \<lparr>status = 302, location = Some ''http://a.example/dir/list.txt'', body = Data []\<rparr>"

section \<open>Worlds used as concrete inputs\<close>

text \<open>Nothing on the remote, no cache, no failing call.\<close>

definition fresh_world :: world where
  "fresh_world =
     \<lparr>srv_lists = [], srv_items = (\<lambda>_. None), srv_rules = [], srv_next_id = 0,
      mem_cache = empty_cache, disk_cache = None, mutations = [], warnings = [],
      faults = (\<lambda>_. False)\<rparr>"

text \<open>One remote list holding \<open>a.com\<close>, no rule, no cache.\<close>

definition stale_item_world :: world where
  "stale_item_world =
     \<lparr>srv_lists = [\<lparr>lid = 0, lname = ''[p] - 001''\<rparr>],
      srv_items = (\<lambda>_. None)(0 \<mapsto> [''a.com'']),
      srv_rules = [], srv_next_id = 1,
      mem_cache = empty_cache, disk_cache = None, mutations = [], warnings = [],
      faults = (\<lambda>_. False)\<rparr>"

text \<open>
  Two remote lists under the prefix, no rule (so both are orphans), no cache; and
  the same world in which deleting the first list fails.
\<close>

definition two_orphans_world :: world where
  "two_orphans_world =
     \<lparr>srv_lists = [\<lparr>lid = 0, lname = ''[p] - 001''\<rparr>, \<lparr>lid = 1, lname = ''[p] - 002''\<rparr>],
      srv_items = (\<lambda>_. None)(0 \<mapsto> [''a.com''], 1 \<mapsto> [''b.com'']),
      srv_rules = [], srv_next_id = 2,
      mem_cache = empty_cache, disk_cache = None, mutations = [], warnings = [],
      faults = (\<lambda>_. False)\<rparr>"

definition failing_delete_world :: world where
  "failing_delete_world = two_orphans_world\<lparr>faults := (\<lambda>c. c = DeleteList 0)\<rparr>"





text \<open>
  A cache file that is out of date: the remote list holds \<open>b.com\<close>, the cache on
  disk still says it holds \<open>a.com\<close>. Such a file is left behind by a pass that
  updated the list and was stopped by a later error before \<open>save_cache\<close>. The
  second world is the one a pass for the desired domain \<open>a.com\<close> leaves.
\<close>

definition stale_cache_world :: world where
  "stale_cache_world =
     \<lparr>srv_lists = [\<lparr>lid = 0, lname = ''[p] - 001''\<rparr>],
      srv_items = (\<lambda>_. None)(0 \<mapsto> [''b.com'']),
      srv_rules = [\<lparr>rid = 1, rname = ''[p] Block Ads'', rlists = [0]\<rparr>],
      srv_next_id = 2,
      mem_cache = empty_cache,
      disk_cache = Some \<lparr>c_lists = [\<lparr>lid = 0, lname = ''[p] - 001''\<rparr>],
                         c_rules = [\<lparr>rid = 1, rname = ''[p] Block Ads'', rlists = [0]\<rparr>],
                         c_mapping = (\<lambda>_. None)(0 \<mapsto> [''a.com''])\<rparr>,
      mutations = [], warnings = [], faults = (\<lambda>_. False)\<rparr>"

definition after_stale_run :: world where
  "after_stale_run =
     stale_cache_world
       \<lparr>srv_items := (\<lambda>_. None)(0 \<mapsto> []),
        mem_cache := \<lparr>c_lists = [\<lparr>lid = 0, lname = ''[p] - 001''\<rparr>],
                      c_rules = [\<lparr>rid = 1, rname = ''[p] Block Ads'', rlists = [0]\<rparr>],
                      c_mapping = (\<lambda>_. None)(0 \<mapsto> [])\<rparr>,
        disk_cache := Some \<lparr>c_lists = [\<lparr>lid = 0, lname = ''[p] - 001''\<rparr>],
                      c_rules = [\<lparr>rid = 1, rname = ''[p] Block Ads'', rlists = [0]\<rparr>],
                      c_mapping = (\<lambda>_. None)(0 \<mapsto> [])\<rparr>,
        mutations := [UpdateList 0 [''b.com''] []]\<rparr>"

text \<open>
  One remote list whose name does not end in a number, referenced by the managed
  rule; no cache.
\<close>

definition bad_name_world :: world where
  "bad_name_world =
     \<lparr>srv_lists = [\<lparr>lid = 0, lname = ''[p] - old''\<rparr>],
      srv_items = (\<lambda>_. None)(0 \<mapsto> [''a.com'']),
      srv_rules = [\<lparr>rid = 1, rname = ''[p] Block Ads'', rlists = [0]\<rparr>],
      srv_next_id = 2,
      mem_cache = empty_cache, disk_cache = None, mutations = [], warnings = [],
      faults = (\<lambda>_. False)\<rparr>"

text \<open>
  A remote that holds 297 lists, named for the indexes 4 to 300 as a version without
  the limit of 298 leaves them once the first three are gone, all of them empty and
  all referenced by the managed rule; no cache, no failing call. And 2001 desired
  domains.
\<close>

definition crowded_indexes :: "nat list" where
  "crowded_indexes = [4..<301]"

definition crowded_world :: world where
  "crowded_world =
     \<lparr>srv_lists = map (\<lambda>i. \<lparr>lid = i, lname = indexed_name ''p'' i\<rparr>) crowded_indexes,
      srv_items = (\<lambda>i. if 4 \<le> i \<and> i < 301 then Some [] else None),
      srv_rules = [\<lparr>rid = 0, rname = ''[p] Block Ads'', rlists = crowded_indexes\<rparr>],
      srv_next_id = 301,
      mem_cache = empty_cache, disk_cache = None, mutations = [], warnings = [],
      faults = (\<lambda>_. False)\<rparr>"

definition many_domains :: "domain list" where
  "many_domains = map (\<lambda>n. dec n @ ''.example'') [0..<2001]"

section \<open>Predicates used in the proofs\<close>

text \<open>A computation raises only errors that satisfy \<open>P\<close>.\<close>

definition raises_only :: "(error \<Rightarrow> bool) \<Rightarrow> ('w \<Rightarrow> (error + 'a) \<times> 'w) \<Rightarrow> bool" where
  "raises_only P m = (\<forall>w e w'. m w = (Inl e, w') \<longrightarrow> P e)"

fun is_http :: "error \<Rightarrow> bool" where
  "is_http (HTTPException _) = True"
| "is_http _ = False"

fun not_ccml :: "error \<Rightarrow> bool" where
  "not_ccml (CannotCreateMoreLists _) = False"
| "not_ccml _ = True"

text \<open>
  The domain that \<open>update_list\<close> reads out of an error, if the error is the one it
  recovers from: an \<open>HTTPException\<close> whose text contains "not found in list" and
  matches the pattern.
\<close>

definition not_found_error :: "error \<Rightarrow> domain option" where
  "not_found_error e =
     (case e of
        HTTPException msg \<Rightarrow> if contains ''not found in list'' msg then re_search msg else None
      | _ \<Rightarrow> None)"


definition issued :: "world \<Rightarrow> world \<Rightarrow> call list" where
  "issued w w' = drop (length (mutations w)) (mutations w')"

definition issues_only :: "(call \<Rightarrow> bool) \<Rightarrow> (world \<Rightarrow> (error + 'a) \<times> world) \<Rightarrow> bool" where
  "issues_only P m =
     (\<forall>w r w'. m w = (r, w') \<longrightarrow> (\<exists>cs. mutations w' = mutations w @ cs \<and> list_all P cs))"


definition known_rules :: "string \<Rightarrow> world \<Rightarrow> cf_rule list" where
  "known_rules prefix w =
     (if c_rules (mem_cache w) = []
      then filter (\<lambda>x. startswith (rname x) (rule_name_of prefix)) (srv_rules w)
      else c_rules (mem_cache w))"

text \<open>
  An orphan, in the words of the claim: a list on the remote under the managed
  prefix that the managed rule does not reference. The managed rule is the first of
  the known rules that bears the managed name; with no such rule every list under
  the prefix is an orphan.
\<close>

definition managed_lists :: "string \<Rightarrow> world \<Rightarrow> cf_list list" where
  "managed_lists prefix w = filter (\<lambda>l. startswith (lname l) (list_name_of prefix)) (srv_lists w)"

definition managed_rule :: "string \<Rightarrow> world \<Rightarrow> cf_rule option" where
  "managed_rule prefix w = find (\<lambda>x. rname x = rule_name_of prefix) (known_rules prefix w)"

definition referenced :: "string \<Rightarrow> world \<Rightarrow> cf_list \<Rightarrow> bool" where
  "referenced prefix w l =
     (case managed_rule prefix w of None \<Rightarrow> False | Some x \<Rightarrow> lid l \<in> set (rlists x))"

definition orphans :: "string \<Rightarrow> world \<Rightarrow> cf_list list" where
  "orphans prefix w = filter (\<lambda>l. \<not> referenced prefix w l) (managed_lists prefix w)"



text \<open>
  Every remote list holds at most 1000 items, without duplicates; and a computation
  that keeps a property of the world, whether it returns or raises.
\<close>

definition within_capacity :: "world \<Rightarrow> bool" where
  "within_capacity w =
     (\<forall>i items. srv_items w i = Some items \<longrightarrow> distinct items \<and> length items \<le> 1000)"

definition preserves :: "(world \<Rightarrow> bool) \<Rightarrow> (world \<Rightarrow> (error + 'a) \<times> world) \<Rightarrow> bool" where
  "preserves I m = (\<forall>w r w'. I w \<longrightarrow> m w = (r, w') \<longrightarrow> I w')"

text \<open>Two worlds that differ in the cache only.\<close>

definition same_remote :: "world \<Rightarrow> world \<Rightarrow> bool" where
  "same_remote w w' =
     (srv_lists w' = srv_lists w \<and> srv_items w' = srv_items w \<and> srv_rules w' = srv_rules w
      \<and> srv_next_id w' = srv_next_id w \<and> mutations w' = mutations w \<and> faults w' = faults w)"

section \<open>Which errors a computation can raise\<close>


lemma bindE_cases [consumes 1, case_names fail ok]:
  assumes "bindE m f w = (r, w'')"
  obtains e where "m w = (Inl e, w'')" "r = Inl e"
        | x w' where "m w = (Inr x, w')" "f x w' = (r, w'')"
  using assms by (auto simp: bindE_def split: prod.splits sum.splits)

lemma raises_only_bindE:
  "raises_only P m \<Longrightarrow> (\<And>x. raises_only P (f x)) \<Longrightarrow> raises_only P (bindE m f)"
  unfolding raises_only_def by (blast elim: bindE_cases)

lemma raises_onlyD: "raises_only P m \<Longrightarrow> m w = (Inl e, w') \<Longrightarrow> P e"
  unfolding raises_only_def by blast

lemma raises_only_returnE [simp]: "raises_only P (returnE x)"
  by (simp add: raises_only_def returnE_def)

lemma raises_only_modify [simp]: "raises_only P (modify f)"
  by (simp add: raises_only_def modify_def)

lemma raises_only_raiseE [simp]: "raises_only P (raiseE e) = P e"
  by (auto simp: raises_only_def raiseE_def)

lemma raises_only_save_cache [simp]: "raises_only P save_cache"
  by (simp add: save_cache_def)

lemma raises_only_set_mapping [simp]: "raises_only P (set_mapping i xs)"
  by (simp add: set_mapping_def)

lemma http_GET_lists: "raises_only is_http GET_lists"
  by (auto simp: raises_only_def GET_lists_def request_failed_def split: if_splits)

lemma http_GET_rules: "raises_only is_http GET_rules"
  by (auto simp: raises_only_def GET_rules_def request_failed_def split: if_splits)

lemma http_get_list_items: "raises_only is_http (get_list_items i)"
  by (auto simp: raises_only_def get_list_items_def GET_list_items_def request_failed_def no_such_resource_def
      split: if_splits option.splits)

lemma http_create_list: "raises_only is_http (create_list n ds)"
  by (auto simp: raises_only_def create_list_def POST_list_def Let_def request_failed_def split: if_splits)

lemma http_PATCH_list: "raises_only is_http (PATCH_list i r a)"
  by (auto simp: raises_only_def PATCH_list_def Let_def request_failed_def no_such_resource_def
      split: if_splits option.splits)

lemma http_delete_list: "raises_only is_http (delete_list i)"
  by (auto simp: raises_only_def delete_list_def DELETE_list_def Let_def request_failed_def no_such_resource_def
      split: if_splits)

lemma http_delete_rule: "raises_only is_http (delete_rule i)"
  by (auto simp: raises_only_def delete_rule_def DELETE_rule_def Let_def request_failed_def no_such_resource_def
      split: if_splits)

lemma http_create_rule: "raises_only is_http (create_rule n ids)"
  by (auto simp: raises_only_def create_rule_def POST_rule_def Let_def request_failed_def split: if_splits)

lemma http_update_rule: "raises_only is_http (update_rule n i ids)"
  by (auto simp: raises_only_def update_rule_def PUT_rule_def Let_def request_failed_def no_such_resource_def
      split: if_splits)

lemma raises_only_update_attempts:
  "(\<And>r a. raises_only P (request r a)) \<Longrightarrow> raises_only P (update_attempts request attempts rm ap)"
proof (induction attempts arbitrary: rm)
  case Nil
  then show ?case by (simp add: raises_only_def)
next
  case (Cons attempt rest)
  have step: "\<And>rm'. raises_only P (update_attempts request rest rm' ap)"
    using Cons by blast
  show ?case
    unfolding raises_only_def
  proof (intro allI impI)
    fix w e w'
    assume run: "update_attempts request (attempt # rest) rm ap w = (Inl e, w')"
    obtain r0 w0 where rq: "request rm ap w = (r0, w0)" by (cases "request rm ap w")
    show "P e"
    proof (cases r0)
      case (Inr res)
      with run rq show ?thesis by simp
    next
      case (Inl e0)
      have "P e0" using Cons.prems rq Inl unfolding raises_only_def by blast
      with run rq Inl step show ?thesis
        by (auto simp: raises_only_def split: error.splits if_splits option.splits)
    qed
  qed
qed

lemma http_update_list: "raises_only is_http (update_list (PATCH_list i) rm ap)"
  unfolding update_list_def by (rule raises_only_update_attempts) (rule http_PATCH_list)

lemma http_get_lists: "raises_only is_http (get_lists p)"
  unfolding get_lists_def by (intro raises_only_bindE http_GET_lists raises_only_returnE)

lemma http_get_rules: "raises_only is_http (get_rules p)"
  unfolding get_rules_def by (intro raises_only_bindE http_GET_rules raises_only_returnE)

lemma raises_only_if:
  "(c \<Longrightarrow> raises_only P a) \<Longrightarrow> (\<not> c \<Longrightarrow> raises_only P b) \<Longrightarrow> raises_only P (if c then a else b)"
  by simp

lemma process_index_http:
  "length (snd st) < MAX_LISTS \<Longrightarrow> raises_only is_http (process_index p ds m i st)"
  unfolding process_index_def Let_def
  by (auto split: option.splits
      intro!: raises_only_bindE http_get_list_items http_update_list http_create_list)

lemma process_index_grows:
  "process_index p ds m i st w = (Inr st', w') \<Longrightarrow> length (snd st') \<le> Suc (length (snd st))"
  unfolding process_index_def Let_def
  by (auto split: option.splits if_splits elim!: bindE_cases simp: returnE_def raiseE_def)


lemma process_indexes_http:
  "length (snd st) + length is \<le> MAX_LISTS \<Longrightarrow>
   process_indexes p ds m is st w = (r, w') \<Longrightarrow>
   (case r of Inl e \<Rightarrow> is_http e | Inr st' \<Rightarrow> length (snd st') \<le> length (snd st) + length is)"
proof (induction "is" arbitrary: st w)
  case Nil
  then show ?case by (auto simp: returnE_def)
next
  case (Cons i rest)
  from Cons.prems(2) have "bindE (process_index p ds m i st) (process_indexes p ds m rest) w = (r, w')"
    by simp
  then show ?case
  proof (cases rule: bindE_cases)
    case (fail e)
    moreover have "length (snd st) < MAX_LISTS" using Cons.prems(1) by simp
    ultimately show ?thesis using process_index_http [of st p ds m i]
      by (auto simp: raises_only_def)
  next
    case (ok st1 w1)
    have g: "length (snd st1) \<le> Suc (length (snd st))"
      using ok(1) by (rule process_index_grows)
    with Cons.prems(1) have "length (snd st1) + length rest \<le> MAX_LISTS" by simp
    from Cons.IH [OF this ok(2)] g show ?thesis
      by (auto split: sum.splits)
  qed
qed

lemma length_all_indexes:
  "all_indexes current_lists n = Inr indexes \<Longrightarrow> length indexes \<le> MAX_LISTS"
  by (auto simp: all_indexes_def Let_def split: sum.splits)


lemma http_get_current_lists: "raises_only is_http (get_current_lists n)"
  unfolding raises_only_def get_current_lists_def
  using http_get_lists [of n]
  by (auto simp: raises_only_def modify_def save_cache_def returnE_def split: if_splits elim!: bindE_cases)

lemma http_get_current_rules: "raises_only is_http (get_current_rules n)"
  unfolding raises_only_def get_current_rules_def
  using http_get_rules [of n]
  by (auto simp: raises_only_def modify_def save_cache_def returnE_def split: if_splits elim!: bindE_cases)

lemma http_get_list_items_cached: "raises_only is_http (get_list_items_cached i)"
  unfolding raises_only_def get_list_items_cached_def
  using http_get_list_items [of i]
  by (auto simp: raises_only_def modify_def set_mapping_def save_cache_def returnE_def
      split: option.splits elim!: bindE_cases)

lemma http_list_id_to_domains: "raises_only is_http (list_id_to_domains ls)"
  by (induction ls) (auto intro!: raises_only_bindE http_get_list_items_cached)

lemma http_inventory: "raises_only is_http (inventory p ds)"
  unfolding inventory_def
  by (intro raises_only_bindE http_get_current_lists http_list_id_to_domains raises_only_returnE)

lemma http_not_ccml: "is_http e \<Longrightarrow> not_ccml e"
  by (cases e) auto

lemma raises_only_mono: "raises_only P m \<Longrightarrow> (\<And>e. P e \<Longrightarrow> Q e) \<Longrightarrow> raises_only Q m"
  unfolding raises_only_def by blast

lemma parse_indexes_error: "parse_indexes names = Inl e \<Longrightarrow> \<exists>t. e = ValueError t"
  by (induction names) (auto split: option.splits sum.splits)

lemma all_indexes_error: "all_indexes ls n = Inl e \<Longrightarrow> \<exists>t. e = ValueError t"
  by (auto simp: all_indexes_def Let_def split: sum.splits dest: parse_indexes_error)

lemma assign_domains_not_ccml: "raises_only not_ccml (assign_domains p ds)"
  unfolding raises_only_def
proof (intro allI impI)
  fix w e w'
  assume "assign_domains p ds w = (Inl e, w')"
  then show "not_ccml e"
    unfolding assign_domains_def Let_def
  proof (cases rule: bindE_cases)
    case (fail e0)
    then show ?thesis using raises_onlyD [OF http_inventory] http_not_ccml by blast
  next
    case (ok found w1)
    from ok(2) show ?thesis
    proof (cases rule: bindE_cases)
      case (fail e0)
      then show ?thesis by (auto simp: liftE_def dest!: all_indexes_error)
    next
      case (ok indexes w2)
      from ok(1) have ai: "all_indexes (fst found) (length ds) = Inr indexes"
        by (simp add: liftE_def)
      from ok(2) show ?thesis
      proof (cases rule: bindE_cases)
        case (fail e0)
        have "length (snd (snd found, [])) + length indexes \<le> MAX_LISTS"
          using length_all_indexes [OF ai] by simp
        from process_indexes_http [OF this fail(1)] fail(2) show ?thesis
          by (auto simp: http_not_ccml)
      next
        case (ok st w3)
        then show ?thesis by (simp add: returnE_def)
      qed
    qed
  qed
qed

lemma http_delete_orphaned_lists: "raises_only is_http (delete_orphaned_lists ls n)"
  unfolding raises_only_def
proof (intro allI impI)
  fix w e w'
  show "delete_orphaned_lists ls n w = (Inl e, w') \<Longrightarrow> is_http e"
  proof (induction ls arbitrary: n w)
    case Nil
    then show ?case by simp
  next
    case (Cons l ls)
    obtain r0 w0 where d: "delete_list (lid l) w = (r0, w0)" by (cases "delete_list (lid l) w")
    show ?case
    proof (cases r0)
      case (Inr u)
      with Cons d show ?thesis by (auto split: if_splits)
    next
      case (Inl e0)
      with d have "is_http e0" using http_delete_list [of "lid l"] by (auto simp: raises_only_def)
      with Cons d Inl show ?thesis by (cases e0) (auto split: if_splits)
    qed
  qed
qed

lemma reclaim_not_ccml: "raises_only not_ccml (reclaim p)"
  unfolding reclaim_def Let_def
  by (intro raises_only_bindE raises_only_if
        raises_only_mono [OF http_get_lists] raises_only_mono [OF http_get_current_rules]
        raises_only_mono [OF http_delete_orphaned_lists])
     (auto simp: http_not_ccml)

lemma sync_rule_http: "raises_only is_http (sync_rule p rules ids)"
  unfolding sync_rule_def Let_def
  by (auto split: option.splits intro!: raises_only_bindE http_update_rule http_create_rule)

section \<open>The capacity precheck\<close>

text \<open>
  C4. If the desired list is longer than \<open>MAX_DOMAINS = 298000\<close>, \<open>update_resources\<close>
  ends with a capacity error and the world it was started in: no call has been
  issued, and the remote store and the cache are as they were. Above 300000 the
  error is that of the first check, otherwise that of the second.
\<close>

theorem capacity_precheck:
  "MAX_DOMAINS < length domains_to_block \<Longrightarrow>
   update_resources prefix domains_to_block w =
     (Inl (if 300000 < length domains_to_block then DomainLimitExceeded
           else TooManyDomains (length domains_to_block)), w)
   \<and> capacity_error (if 300000 < length domains_to_block then DomainLimitExceeded
           else TooManyDomains (length domains_to_block))"
  by (simp add: update_resources_def raiseE_def)

text \<open>A desired list of 399001 domains, which would need 400 lists.\<close>

theorem capacity_precheck_witness:
  "MAX_DOMAINS < length (map dec [0..<399001]) \<and>
   (length (map dec [0..<399001]) + 999) div 1000 = 400 \<and>
   update_resources ''p'' (map dec [0..<399001]) fresh_world = (Inl DomainLimitExceeded, fresh_world)"
  using capacity_precheck [of "map dec [0..<399001]" "''p''" fresh_world]
  by (simp add: MAX_DOMAINS_def MAX_LISTS_def)

section \<open>The capacity check inside the loop\<close>

text \<open>
  C9. The error "Cannot create more lists" of the list-creation branch is never
  raised, neither by the whole pass nor by its assignment stage: the loop runs over
  at most \<open>MAX_LISTS\<close> indexes and appends at most one identifier per index, so
  \<open>len(new_list_ids) < MAX_LISTS\<close> whenever the branch is evaluated.
\<close>

theorem creation_limit_unreachable:
  "fst (update_resources prefix domains_to_block w) \<noteq> Inl (CannotCreateMoreLists n)
   \<and> fst (assign_domains prefix domains_to_block w) \<noteq> Inl (CannotCreateMoreLists n)"
proof -
  have "raises_only not_ccml (update_resources prefix domains_to_block)"
    unfolding update_resources_def
    by (intro raises_only_if raises_only_bindE reclaim_not_ccml assign_domains_not_ccml
          raises_only_mono [OF sync_rule_http])
       (auto simp: http_not_ccml)
  then have "fst (update_resources prefix domains_to_block w) \<noteq> Inl (CannotCreateMoreLists n)"
    by (cases "update_resources prefix domains_to_block w") (auto dest: raises_onlyD)
  moreover have "fst (assign_domains prefix domains_to_block w) \<noteq> Inl (CannotCreateMoreLists n)"
    using assign_domains_not_ccml [of prefix domains_to_block]
    by (cases "assign_domains prefix domains_to_block w") (auto dest: raises_onlyD)
  ultimately show ?thesis by simp
qed

section \<open>Parsing the index of a list name\<close>

lemma set_dict_keys: "set (dict_keys ls) = lname ` set ls"
  by (simp add: dict_keys_def)

lemma parse_indexes_bad:
  "name \<in> set names \<Longrightarrow> py_int (last_token name) = None \<Longrightarrow>
   \<exists>tok. parse_indexes names = Inl (ValueError tok) \<and> py_int tok = None"
  by (induction names) (auto split: option.splits sum.splits)

text \<open>
  \<open>int\<close> skips blanks around the digits but not the separators 28 to 31, which
  \<open>\s\<close> matches.
\<close>

lemma py_int_blanks:
  "py_int '' 001'' = Some 1" "py_int (''001'' @ [CHR 0x0A]) = Some 1"
  "py_int ([CHR 0x1F] @ ''001'') = None" "py_int ''old'' = None" "py_int [] = None"
  by (simp_all add: py_int_def int_strip_def is_int_space_def dec_literal_def is_digit_def
      digit_val_def)

text \<open>
  C10. If the pass gets as far as the inventory and one of the lists retrieved has a
  name whose last \<open>-\<close>-separated token \<open>int\<close> cannot parse, \<open>update_resources\<close>
  ends with the \<open>ValueError\<close> of that token: an exception, not a result and not
  one of the errors reported through \<open>error\<close>.
\<close>

theorem index_parsing_not_total:
  assumes "length domains_to_block \<le> MAX_DOMAINS"
    and "reclaim prefix w = (Inr current_rules, w1)"
    and "inventory prefix domains_to_block w1 = (Inr (current_lists, remaining_domains), w2)"
    and "\<exists>lst \<in> set current_lists. py_int (last_token (lname lst)) = None"
  shows "\<exists>tok. update_resources prefix domains_to_block w = (Inl (ValueError tok), w2)
           \<and> py_int tok = None"
proof -
  from assms(4) obtain name where
    "name \<in> set (dict_keys current_lists)" "py_int (last_token name) = None"
    by (auto simp: set_dict_keys)
  from parse_indexes_bad [OF this] obtain tok where
    tok: "parse_indexes (dict_keys current_lists) = Inl (ValueError tok)" "py_int tok = None"
    by blast
  then have "all_indexes current_lists (length domains_to_block) = Inl (ValueError tok)"
    by (simp add: all_indexes_def)
  with assms(3) have "assign_domains prefix domains_to_block w1 = (Inl (ValueError tok), w2)"
    by (simp add: assign_domains_def bindE_def liftE_def)
  with assms(1,2) have "update_resources prefix domains_to_block w = (Inl (ValueError tok), w2)"
    by (simp add: update_resources_def bindE_def MAX_DOMAINS_def MAX_LISTS_def)
  with tok(2) show ?thesis by blast
qed

text \<open>The definitions unfolded to run a pass on a concrete world.\<close>

lemmas run_defs = bindE_def returnE_def raiseE_def modify_def liftE_def Let_def
  get_lists_def get_rules_def GET_lists_def GET_rules_def get_list_items_def GET_list_items_def
  get_current_lists_def get_current_rules_def get_list_items_cached_def set_mapping_def save_cache_def
  extract_list_ids_def reclaim_def inventory_def startswith_def list_name_of_def rule_name_of_def
  empty_cache_def MAX_LISTS_def MAX_DOMAINS_def

lemma bad_name_reclaim: "reclaim ''p'' bad_name_world = (Inr [\<lparr>rid = 1, rname = ''[p] Block Ads'', rlists = [0]\<rparr>],
   bad_name_world\<lparr>mem_cache := empty_cache\<lparr>c_rules := [\<lparr>rid = 1, rname = ''[p] Block Ads'', rlists = [0]\<rparr>]\<rparr>,
      disk_cache := Some (empty_cache\<lparr>c_rules := [\<lparr>rid = 1, rname = ''[p] Block Ads'', rlists = [0]\<rparr>]\<rparr>)\<rparr>)"
  by (simp add: run_defs bad_name_world_def)


lemma bad_name_inventory: "inventory ''p'' [''a.com''] (snd (reclaim ''p'' bad_name_world)) = 
  (Inr ([\<lparr>lid = 0, lname = ''[p] - old''\<rparr>], []), 
    snd (inventory ''p'' [''a.com''] (snd (reclaim ''p'' bad_name_world))))"
  by (simp add: bad_name_reclaim) (simp add: run_defs bad_name_world_def)

theorem index_parsing_not_total_witness:
  "\<exists>tok. update_resources ''p'' [''a.com''] bad_name_world =
     (Inl (ValueError tok), snd (inventory ''p'' [''a.com''] (snd (reclaim ''p'' bad_name_world))))
   \<and> py_int tok = None"
proof -
  have 1: "length [''a.com''] \<le> MAX_DOMAINS" by (simp add: MAX_DOMAINS_def MAX_LISTS_def)
  have 2: "reclaim ''p'' bad_name_world =
     (Inr [\<lparr>rid = 1, rname = ''[p] Block Ads'', rlists = [0]\<rparr>], snd (reclaim ''p'' bad_name_world))"
    by (simp add: bad_name_reclaim)
  have 4: "\<exists>lst \<in> set [\<lparr>lid = 0, lname = ''[p] - old''\<rparr>]. py_int (last_token (lname lst)) = None"
    by (simp add: py_int_def last_token_def int_strip_def is_int_space_def dec_literal_def is_digit_def)
  from index_parsing_not_total [OF 1 2 bad_name_inventory 4] show ?thesis .
qed

section \<open>\<open>update_list\<close>: retry on "not found in list"\<close>

lemma attempts_3: "[0..<max_retries] = [0, 1, 2]"
  by (simp add: max_retries_def upt_rec)

lemma update_list_unfold: "update_list request rm ap = update_attempts request [0, 1, 2] rm ap"
  by (simp add: update_list_def attempts_3)

lemma find_first_candidate:
  "0 < n \<Longrightarrow> P (f n) \<Longrightarrow> find P (map f (rev [1..<Suc n])) = Some (f n)"
  by (cases n) auto

lemma takeWhile_until: "c \<notin> set d \<Longrightarrow> takeWhile (\<lambda>x. x \<noteq> c) (d @ c # rest) = d"
  by (induction d) auto

lemma startswith_append [simp]: "startswith (p @ s) p"
  by (simp add: startswith_def)

lemma match_group2_domain:
  assumes "d \<noteq> []" "CHR '','' \<notin> set d"
  shows "match_group2 (d @ '', not found in list'' @ quote) = Some d"
proof -
  define r where "r = d @ '', not found in list'' @ quote"
  have run: "takeWhile (\<lambda>c. c \<noteq> CHR '','') r = d"
    unfolding r_def using takeWhile_until [OF assms(2), of "'' not found in list'' @ quote"] by simp
  have tail: "after_group2 ('', not found in list'' @ quote)"
    unfolding after_group2_def by (rule disjI1) (rule startswith_append [of _ "[]", simplified])
  have "find (\<lambda>g. after_group2 (drop (length g) r))
          (map (\<lambda>n. take n d) (rev [1..<Suc (length d)])) = Some (take (length d) d)"
  proof (rule find_first_candidate)
    show "0 < length d" using assms(1) by simp
    show "after_group2 (drop (length (take (length d) d)) r)"
      using tail by (simp add: r_def)
  qed
  then have "match_group2 r = Some d"
    unfolding match_group2_def Let_def run by simp
  then show ?thesis by (simp only: r_def)
qed

lemma re_search_not_found_message:
  assumes "d \<noteq> []" "CHR '','' \<notin> set d"
  shows "re_search (not_found_message d) = Some d"
proof -
  have "match_here (not_found_message d) = Some d"
    using match_group2_domain [OF assms]
    by (simp add: match_here_def not_found_message_def quote_def startswith_def is_space_def
        match_groups_def Let_def)
  then show ?thesis
    by (simp add: not_found_message_def)
qed

lemma contains_append_right: "contains sub s \<Longrightarrow> contains sub (p @ s)"
  by (induction p) auto

lemma contains_prefix: "contains sub (sub @ s)"
proof (cases "sub @ s")
  case Nil
  then show ?thesis by simp
next
  case (Cons a l)
  have "startswith (sub @ s) sub" by simp
  with Cons show ?thesis by (metis contains.simps(2))
qed

lemma contains_not_found_message: "contains ''not found in list'' (not_found_message d)"
proof -
  have "not_found_message d =
      (quote @ ''message'' @ quote @ '': '' @ quote @ ''item to be removed, '' @ d @ '', '')
      @ (''not found in list'' @ quote)"
    by (simp add: not_found_message_def quote_def)
  then show ?thesis
    using contains_append_right [OF contains_prefix] by metis
qed


lemma not_found_error_message:
  "d \<noteq> [] \<Longrightarrow> CHR '','' \<notin> set d \<Longrightarrow>
   not_found_error (HTTPException (not_found_message d)) = Some d"
  by (simp add: not_found_error_def contains_not_found_message re_search_not_found_message)

lemma update_attempts_step:
  "request rm ap w = (Inl e, w1) \<Longrightarrow>
   update_attempts request (attempt # rest) rm ap w =
     (case not_found_error e of
        Some d \<Rightarrow> if attempt < max_retries - 1 then update_attempts request rest (remove1 d rm) ap w1
                  else (Inl e, w1)
      | None \<Rightarrow> (Inl e, w1))"
  by (cases e) (auto simp: not_found_error_def split: option.splits)

lemma update_attempts_ok:
  "request rm ap w = (Inr res, w1) \<Longrightarrow>
   update_attempts request (attempt # rest) rm ap w = (Inr (Some res), w1)"
  by simp

text \<open>
  C6. \<open>update_list\<close> issues at most three requests. A first or second request
  that fails with the "not found in list" error is followed by a request whose
  removal list no longer holds the domain read out of the error (first occurrence
  removed); as soon as a request succeeds, \<open>update_list\<close> returns its result. Any
  other error is raised again at once, and so is whatever error the third request
  fails with. The domain is read out of an error text of the shape the pattern
  expects whenever it is non-empty and has no comma.
\<close>

theorem update_list_retry:
  fixes request :: "domain list \<Rightarrow> domain list \<Rightarrow> 'w \<Rightarrow> (error + 'r) \<times> 'w"
  shows
  "(request rm ap w = (Inr res, w1) \<longrightarrow>
      update_list request rm ap w = (Inr (Some res), w1))
   \<and> (request rm ap w = (Inl e1, w1) \<and> not_found_error e1 = None \<longrightarrow>
      update_list request rm ap w = (Inl e1, w1))
   \<and> (request rm ap w = (Inl e1, w1) \<and> not_found_error e1 = Some d1 \<and>
      request (remove1 d1 rm) ap w1 = (Inr res, w2) \<longrightarrow>
      update_list request rm ap w = (Inr (Some res), w2))
   \<and> (request rm ap w = (Inl e1, w1) \<and> not_found_error e1 = Some d1 \<and>
      request (remove1 d1 rm) ap w1 = (Inl e2, w2) \<and> not_found_error e2 = None \<longrightarrow>
      update_list request rm ap w = (Inl e2, w2))
   \<and> (request rm ap w = (Inl e1, w1) \<and> not_found_error e1 = Some d1 \<and>
      request (remove1 d1 rm) ap w1 = (Inl e2, w2) \<and> not_found_error e2 = Some d2 \<and>
      request (remove1 d2 (remove1 d1 rm)) ap w2 = (Inr res, w3) \<longrightarrow>
      update_list request rm ap w = (Inr (Some res), w3))
   \<and> (request rm ap w = (Inl e1, w1) \<and> not_found_error e1 = Some d1 \<and>
      request (remove1 d1 rm) ap w1 = (Inl e2, w2) \<and> not_found_error e2 = Some d2 \<and>
      request (remove1 d2 (remove1 d1 rm)) ap w2 = (Inl e3, w3) \<longrightarrow>
      update_list request rm ap w = (Inl e3, w3))
   \<and> (d \<noteq> [] \<and> CHR '','' \<notin> set d \<longrightarrow>
      not_found_error (HTTPException (not_found_message d)) = Some d)"
proof (intro conjI impI; (elim conjE)?)
  show "update_list request rm ap w = (Inr (Some res), w1)" if "request rm ap w = (Inr res, w1)"
    using that by (simp add: update_list_unfold)
  show "update_list request rm ap w = (Inl e1, w1)"
    if "request rm ap w = (Inl e1, w1)" "not_found_error e1 = None"
    using that by (simp add: update_list_unfold update_attempts_step del: update_attempts.simps)
  show "update_list request rm ap w = (Inr (Some res), w2)"
    if "request rm ap w = (Inl e1, w1)" "not_found_error e1 = Some d1"
       "request (remove1 d1 rm) ap w1 = (Inr res, w2)"
    using that by (simp add: update_list_unfold update_attempts_step update_attempts_ok max_retries_def del: update_attempts.simps)
  show "update_list request rm ap w = (Inl e2, w2)"
    if "request rm ap w = (Inl e1, w1)" "not_found_error e1 = Some d1"
       "request (remove1 d1 rm) ap w1 = (Inl e2, w2)" "not_found_error e2 = None"
    using that by (simp add: update_list_unfold update_attempts_step update_attempts_ok max_retries_def del: update_attempts.simps)
  show "update_list request rm ap w = (Inr (Some res), w3)"
    if "request rm ap w = (Inl e1, w1)" "not_found_error e1 = Some d1"
       "request (remove1 d1 rm) ap w1 = (Inl e2, w2)" "not_found_error e2 = Some d2"
       "request (remove1 d2 (remove1 d1 rm)) ap w2 = (Inr res, w3)"
    using that by (simp add: update_list_unfold update_attempts_step update_attempts_ok max_retries_def del: update_attempts.simps)
  show "update_list request rm ap w = (Inl e3, w3)"
    if "request rm ap w = (Inl e1, w1)" "not_found_error e1 = Some d1"
       "request (remove1 d1 rm) ap w1 = (Inl e2, w2)" "not_found_error e2 = Some d2"
       "request (remove1 d2 (remove1 d1 rm)) ap w2 = (Inl e3, w3)"
    using that
    by (simp add: update_list_unfold update_attempts_step update_attempts_ok max_retries_def
        del: update_attempts.simps split: option.splits)
  show "not_found_error (HTTPException (not_found_message d)) = Some d"
    if "d \<noteq> []" "CHR '','' \<notin> set d"
    using that by (rule not_found_error_message)
qed

text \<open>
  The removal list names \<open>x.com\<close>, which the list does not hold: the first request is
  rejected, the second, without \<open>x.com\<close>, succeeds.
\<close>

theorem update_list_retry_witness:
  "update_list (PATCH_list 0) [''x.com'', ''a.com''] [''b.com''] stale_item_world =
     (Inr (Some ()),
      stale_item_world
        \<lparr>srv_items := (\<lambda>_. None)(0 \<mapsto> [''b.com'']),
         mutations := [UpdateList 0 [''x.com'', ''a.com''] [''b.com''],
                       UpdateList 0 [''a.com''] [''b.com'']]\<rparr>)"
proof -
  define w1 where "w1 = issue (UpdateList 0 [''x.com'', ''a.com''] [''b.com'']) stale_item_world"
  have 1: "PATCH_list 0 [''x.com'', ''a.com''] [''b.com''] stale_item_world =
             (Inl (HTTPException (not_found_message ''x.com'')), w1)"
    by (simp add: PATCH_list_def Let_def stale_item_world_def issue_def w1_def)
  have 2: "not_found_error (HTTPException (not_found_message ''x.com'')) = Some ''x.com''"
    by (rule not_found_error_message) simp_all
  have 3: "PATCH_list 0 (remove1 ''x.com'' [''x.com'', ''a.com'']) [''b.com''] w1 =
             (Inr (),
              stale_item_world
                \<lparr>srv_items := (\<lambda>_. None)(0 \<mapsto> [''b.com'']),
                 mutations := [UpdateList 0 [''x.com'', ''a.com''] [''b.com''],
                               UpdateList 0 [''a.com''] [''b.com'']]\<rparr>)"
    by (simp add: PATCH_list_def Let_def stale_item_world_def issue_def w1_def)
  from update_list_retry [where request = "PATCH_list 0" and rm = "[''x.com'', ''a.com'']"
      and ap = "[''b.com'']" and w = stale_item_world
      and ?e1.0 = "HTTPException (not_found_message ''x.com'')" and ?w1.0 = w1
      and ?d1.0 = "''x.com''" and res = "()"] 1 2 3
  show ?thesis by blast
qed

section \<open>Running the model on concrete inputs\<close>

text \<open>
  The names and indexes of the example lists, and the definitions unfolded to run
  a whole pass on a concrete world.
\<close>

lemma indexed_name_p:
  "indexed_name ''p'' 1 = ''[p] - 001''" "indexed_name ''p'' 2 = ''[p] - 002''"
  "indexed_name ''p'' (Suc 0) = ''[p] - 001''"
  by code_simp+

lemma parsed_index_p:
  "py_int (last_token ''[p] - 001'') = Some 1" "py_int (last_token ''[p] - 002'') = Some 2"
  by code_simp+

lemma upt_small: "[Suc 0..<2] = [Suc 0]" "[Suc 0..<Suc 0] = []" "[0..<Suc 0] = [0]"
  by (simp_all add: upt_rec)

lemmas eval_defs = bindE_def returnE_def raiseE_def modify_def liftE_def Let_def
  get_lists_def get_rules_def GET_lists_def GET_rules_def get_list_items_def GET_list_items_def
  get_current_lists_def get_current_rules_def get_list_items_cached_def set_mapping_def save_cache_def
  extract_list_ids_def reclaim_def inventory_def startswith_def list_name_of_def rule_name_of_def
  empty_cache_def MAX_LISTS_def MAX_DOMAINS_def
  delete_list_def DELETE_list_def issue_def silent_error_def request_failed_def no_such_resource_def
  create_list_def POST_list_def create_rule_def POST_rule_def update_rule_def PUT_rule_def
  PATCH_list_def update_list_unfold
  all_indexes_def dict_keys_def list_name_to_id_def
  assign_domains_def update_resources_def sync_rule_def process_index_def
  indexed_name_p parsed_index_p upt_small

section \<open>The calls a computation issues\<close>

lemma issues_onlyD:
  "issues_only P m \<Longrightarrow> m w = (r, w') \<Longrightarrow> \<exists>cs. mutations w' = mutations w @ cs \<and> list_all P cs"
  unfolding issues_only_def by blast

lemma issues_onlyI:
  "(\<And>w r w'. m w = (r, w') \<Longrightarrow> \<exists>cs. mutations w' = mutations w @ cs \<and> list_all P cs) \<Longrightarrow>
   issues_only P m"
  unfolding issues_only_def by blast

lemma issues_only_bindE:
  assumes "issues_only P m" "\<And>x. issues_only P (f x)"
  shows "issues_only P (bindE m f)"
proof (rule issues_onlyI)
  fix w r w'
  assume "bindE m f w = (r, w')"
  then show "\<exists>cs. mutations w' = mutations w @ cs \<and> list_all P cs"
  proof (cases rule: bindE_cases)
    case (fail e)
    then show ?thesis using issues_onlyD [OF assms(1)] by blast
  next
    case (ok x w1)
    from issues_onlyD [OF assms(1) ok(1)] obtain cs1 where
      1: "mutations w1 = mutations w @ cs1" "list_all P cs1" by blast
    from issues_onlyD [OF assms(2) ok(2)] obtain cs2 where
      2: "mutations w' = mutations w1 @ cs2" "list_all P cs2" by blast
    from 1 2 have "mutations w' = mutations w @ (cs1 @ cs2) \<and> list_all P (cs1 @ cs2)" by simp
    then show ?thesis by blast
  qed
qed

lemma issues_only_silent:
  "(\<And>w r w'. m w = (r, w') \<Longrightarrow> mutations w' = mutations w) \<Longrightarrow> issues_only P m"
  by (rule issues_onlyI) (rule exI [of _ "[]"], simp)

lemma issues_only_returnE [simp]: "issues_only P (returnE x)"
  by (rule issues_only_silent) (simp add: returnE_def)

lemma issues_only_raiseE [simp]: "issues_only P (raiseE e)"
  by (rule issues_only_silent) (simp add: raiseE_def)

lemma issues_only_liftE [simp]: "issues_only P (liftE x)"
  by (rule issues_only_silent) (simp add: liftE_def)

lemma issues_only_save_cache [simp]: "issues_only P save_cache"
  by (rule issues_only_silent) (auto simp: save_cache_def modify_def)

lemma issues_only_set_mapping [simp]: "issues_only P (set_mapping i xs)"
  by (rule issues_only_silent) (auto simp: set_mapping_def modify_def)

lemma issues_only_modify_cache [simp]: "issues_only P (modify (\<lambda>w. w\<lparr>mem_cache := g w\<rparr>))"
  by (rule issues_only_silent) (auto simp: modify_def)


lemma issues_only_get_lists [simp]: "issues_only P (get_lists p)"
  by (rule issues_only_silent)
     (auto simp: get_lists_def GET_lists_def bindE_def returnE_def split: if_splits)

lemma issues_only_get_rules [simp]: "issues_only P (get_rules p)"
  by (rule issues_only_silent)
     (auto simp: get_rules_def GET_rules_def bindE_def returnE_def split: if_splits)

lemma issues_only_get_list_items [simp]: "issues_only P (get_list_items i)"
  by (rule issues_only_silent)
     (auto simp: get_list_items_def GET_list_items_def split: if_splits option.splits)

lemma one_call: "mutations w' = mutations w @ [c] \<Longrightarrow> P c \<Longrightarrow>
   \<exists>cs. mutations w' = mutations w @ cs \<and> list_all P cs"
  by (rule exI [of _ "[c]"]) simp

lemma issues_only_delete_list: "P (DeleteList i) \<Longrightarrow> issues_only P (delete_list i)"
  by (rule issues_onlyI, rule one_call [where c = "DeleteList i"])
     (auto simp: delete_list_def DELETE_list_def Let_def issue_def split: if_splits)

lemma issues_only_delete_rule: "P (DeleteRule i) \<Longrightarrow> issues_only P (delete_rule i)"
  by (rule issues_onlyI, rule one_call [where c = "DeleteRule i"])
     (auto simp: delete_rule_def DELETE_rule_def Let_def issue_def split: if_splits)









lemma issues_only_get_current_lists [simp]: "issues_only P (get_current_lists n)"
  by (rule issues_only_silent)
     (auto simp: get_current_lists_def get_lists_def GET_lists_def bindE_def returnE_def modify_def
        save_cache_def split: if_splits)

lemma issues_only_get_current_rules [simp]: "issues_only P (get_current_rules n)"
  by (rule issues_only_silent)
     (auto simp: get_current_rules_def get_rules_def GET_rules_def bindE_def returnE_def modify_def
        save_cache_def split: if_splits)

lemma issues_only_get_list_items_cached [simp]: "issues_only P (get_list_items_cached i)"
  by (rule issues_only_silent)
     (auto simp: get_list_items_cached_def get_list_items_def GET_list_items_def bindE_def
        returnE_def modify_def set_mapping_def save_cache_def split: if_splits option.splits)

lemma issues_only_list_id_to_domains [simp]: "issues_only P (list_id_to_domains ls)"
  by (induction ls) (auto intro!: issues_only_bindE)










section \<open>Orphan reclamation\<close>

lemma get_lists_managed:
  "\<not> faults w GetLists \<Longrightarrow> get_lists (list_name_of prefix) w = (Inr (managed_lists prefix w), w)"
  by (simp add: get_lists_def GET_lists_def managed_lists_def bindE_def returnE_def)












lemma failing_delete_orphans:
  "orphans ''p'' failing_delete_world =
     [\<lparr>lid = 0, lname = ''[p] - 001''\<rparr>, \<lparr>lid = 1, lname = ''[p] - 002''\<rparr>]"
  "managed_lists ''p'' failing_delete_world =
     [\<lparr>lid = 0, lname = ''[p] - 001''\<rparr>, \<lparr>lid = 1, lname = ''[p] - 002''\<rparr>]"
  "known_rules ''p'' failing_delete_world = []"
  by (simp_all add: orphans_def referenced_def managed_rule_def managed_lists_def known_rules_def
      failing_delete_world_def two_orphans_world_def empty_cache_def startswith_def list_name_of_def)


section \<open>Teardown\<close>






















section \<open>Redirects in \<open>download_file\<close>\<close>

lemma dec_10: "dec max_redirects = ''10''"
  by code_simp

text \<open>The request the code sends to a redirect target is the one the description asks for.\<close>

lemma redirect_request_to: "redirect_request u = request_to u"
  by (simp add: redirect_request_def request_to_def full_path_def with_separator_def)

lemma redirecting_iff:
  "redirecting resp = (redirect_status (status resp) \<and> (\<exists>loc. location resp = Some loc \<and> loc \<noteq> []))"
  by (cases "location resp") (auto simp: redirecting_def redirect_status_def)

lemma follow_redirects_hops:
  "redirect_count + n = 10 \<Longrightarrow>
   follow_redirects urlparse urljoin net url resp redirect_count sent =
     (case hops False urlparse urljoin net n original url resp of (r, s) \<Rightarrow> (r, sent @ s))"
proof (induction n arbitrary: url resp redirect_count sent)
  case 0
  then have c: "redirect_count = 10" by simp
  show ?case
    by (subst follow_redirects.simps, subst hops.simps)
       (auto simp: c redirecting_iff max_redirects_def too_many_redirects_def dec_10 [unfolded max_redirects_def]
          split: option.splits)
next
  case (Suc n)
  then have c: "redirect_count < 10" "Suc redirect_count + n = 10" by simp_all
  show ?case
    apply (subst follow_redirects.simps)
    apply (subst hops.simps)
    using c(1)
    apply (auto simp: redirecting_iff redirect_request_to max_redirects_def Let_def Suc.IH [OF c(2)]
        split: option.splits sum.splits prod.splits)
    done
qed

lemma download_file_by_hops:
  "download_file urlparse urljoin net url = download_by_hops False urlparse urljoin net url"
  unfolding download_file_def download_by_hops_def Let_def first_request_def
  by (auto simp: follow_redirects_hops [where n = 10 and original = url]
      split: sum.splits prod.splits)

lemma length_hops:
  "length (snd (hops b urlparse urljoin net n original url resp)) \<le> n"
proof (induction n arbitrary: url resp)
  case 0
  show ?case by (subst hops.simps) simp
next
  case (Suc n)
  show ?case
  proof (cases "redirecting resp")
    case False
    then show ?thesis by (subst hops.simps) simp
  next
    case True
    define target_url where "target_url =
      (if netloc (urlparse (the (location resp))) = []
       then urljoin (if b then original else url) (the (location resp)) else the (location resp))"
    show ?thesis
    proof (cases "net (request_to (urlparse target_url))")
      case (Inl e)
      with True show ?thesis
        by (subst hops.simps) (simp add: Let_def target_url_def)
    next
      case (Inr resp')
      obtain r s where h: "hops b urlparse urljoin net n original target_url resp' = (r, s)"
        by (cases "hops b urlparse urljoin net n original target_url resp'")
      with Suc.IH [of target_url resp'] have "length s \<le> n" by simp
      with True Inr h show ?thesis
        by (subst hops.simps) (simp add: Let_def target_url_def)
    qed
  qed
qed

lemma length_download_by_hops:
  "length (snd (download_by_hops b urlparse urljoin net url)) \<le> 11"
proof -
  define rq where "rq = \<lparr>https = (scheme (urlparse url) = ''https''), host = netloc (urlparse url),
                          target = path (urlparse url)\<rparr>"
  show ?thesis
  proof (cases "net rq")
    case (Inl e)
    then show ?thesis
      by (simp add: download_by_hops_def Let_def rq_def [symmetric])
  next
    case (Inr resp)
    obtain r s where h: "hops b urlparse urljoin net 10 url url resp = (r, s)"
      by (cases "hops b urlparse urljoin net 10 url url resp")
    with length_hops [of b urlparse urljoin net 10 url url resp] have "length s \<le> 10" by simp
    with Inr h show ?thesis
      by (cases r) (auto simp: download_by_hops_def Let_def rq_def [symmetric] split: prod.splits)
  qed
qed

lemma hops_all_redirecting:
  assumes "\<forall>rq. \<exists>resp. net rq = Inr resp \<and> redirecting resp"
  shows "redirecting resp \<Longrightarrow>
    \<exists>u s. hops b urlparse urljoin net n original url resp = (Inl (too_many_redirects u), s) \<and> length s = n"
proof (induction n arbitrary: url resp)
  case 0
  then have "hops b urlparse urljoin net 0 original url resp = (Inl (too_many_redirects url), [])"
    by (subst hops.simps) simp
  then show ?case by auto
next
  case (Suc n)
  define target_url where "target_url =
      (if netloc (urlparse (the (location resp))) = []
       then urljoin (if b then original else url) (the (location resp)) else the (location resp))"
  from assms obtain resp' where
    n: "net (request_to (urlparse target_url)) = Inr resp'" "redirecting resp'" by blast
  from Suc.IH [OF n(2)] obtain u s where
    "hops b urlparse urljoin net n original target_url resp' = (Inl (too_many_redirects u), s)"
    "length s = n" by blast
  with Suc.prems n(1) have
    "hops b urlparse urljoin net (Suc n) original url resp =
       (Inl (too_many_redirects u), request_to (urlparse target_url) # s)"
    by (subst hops.simps) (simp add: Let_def target_url_def)
  with \<open>length s = n\<close> show ?case by auto
qed

lemma download_all_redirecting:
  assumes all: "\<forall>rq. \<exists>resp. net rq = Inr resp \<and> redirecting resp"
  shows "\<exists>u s. download_by_hops b urlparse urljoin net url = (Inl (too_many_redirects u), s)
           \<and> length s = 11"
proof -
  define rq where "rq = \<lparr>https = (scheme (urlparse url) = ''https''), host = netloc (urlparse url),
                          target = path (urlparse url)\<rparr>"
  from all obtain resp where r: "net rq = Inr resp" "redirecting resp" by blast
  from hops_all_redirecting [OF all r(2), of b urlparse urljoin 10 url url] obtain u s where
    h: "hops b urlparse urljoin net 10 url url resp = (Inl (too_many_redirects u), s)" "length s = 10"
    by blast
  with r(1) show ?thesis
    by (auto simp: download_by_hops_def Let_def rq_def [symmetric])
qed

text \<open>The first two requests of a download whose first response redirects.\<close>

lemma first_hop:
  assumes n: "net \<lparr>https = (scheme (urlparse url) = ''https''), host = netloc (urlparse url),
                   target = path (urlparse url)\<rparr> = Inr resp"
    and r: "redirecting resp" and l: "location resp = Some loc"
  shows "take 2 (snd (download_by_hops b urlparse urljoin net url)) =
     [\<lparr>https = (scheme (urlparse url) = ''https''), host = netloc (urlparse url),
       target = path (urlparse url)\<rparr>,
      request_to (urlparse (if netloc (urlparse loc) = [] then urljoin url loc else loc))]"
proof -
  define loc' where "loc' = (if netloc (urlparse loc) = [] then urljoin url loc else loc)"
  have h: "\<exists>r s. hops b urlparse urljoin net 10 url url resp = (r, request_to (urlparse loc') # s)"
  proof (cases "net (request_to (urlparse loc'))")
    case (Inl e)
    with r l show ?thesis
      by (subst hops.simps) (simp add: Let_def loc'_def)
  next
    case (Inr resp')
    obtain r' s' where "hops b urlparse urljoin net 9 url loc' resp' = (r', s')"
      by (cases "hops b urlparse urljoin net 9 url loc' resp'")
    with r l Inr show ?thesis
      by (subst hops.simps) (simp add: Let_def loc'_def)
  qed
  then obtain r' s' where
    "hops b urlparse urljoin net 10 url url resp = (r', request_to (urlparse loc') # s')" by blast
  with n show ?thesis
    by (cases r') (auto simp: download_by_hops_def Let_def loc'_def split: prod.splits)
qed

lemmas download_defs = download_by_hops_def hops.simps redirecting_def
  urlparse_example_def urljoin_example_def net_example_def no_url_def
  request_to_def with_separator_def finish_download_def Let_def

text \<open>
  C8, as stated, fails on the base of a relative \<open>Location\<close>. The first response
  redirects to another host, the second to the relative \<open>final.txt\<close>:
  \<open>download_file\<close> resolves it against the second URL and downloads the file,
  whereas resolving it against the original URL would send the third request to the
  first host.
\<close>

theorem relative_redirect_counterexample:
  "download_file urlparse_example urljoin_example net_example ''http://a.example/dir/list.txt'' =
     (Inr ''ads.example'',
      [\<lparr>https = False, host = ''a.example'', target = ''/dir/list.txt''\<rparr>,
       \<lparr>https = False, host = ''b.example'', target = ''/new/list.txt?v=2''\<rparr>,
       \<lparr>https = False, host = ''b.example'', target = ''/new/final.txt''\<rparr>])
   \<and> snd (download_by_hops True urlparse_example urljoin_example net_example
            ''http://a.example/dir/list.txt'') =
      [\<lparr>https = False, host = ''a.example'', target = ''/dir/list.txt''\<rparr>,
       \<lparr>https = False, host = ''b.example'', target = ''/new/list.txt?v=2''\<rparr>,
       \<lparr>https = False, host = ''a.example'', target = ''/dir/final.txt''\<rparr>]"
  by (simp add: download_file_by_hops download_defs)

text \<open>
  C8, amended. \<open>download_file\<close> follows redirects as \<open>hops\<close> does when a relative
  \<open>Location\<close> is resolved against the URL of the request that was redirected: a
  response with status 301, 302, 303, 307 or 308 and a non-empty \<open>Location\<close> is
  followed by a request to the target. In particular, if the first response
  redirects, the second request goes to the host of the target (the \<open>Location\<close>,
  joined to the URL of the download if it names no host), over TLS if the target's
  scheme is \<open>https\<close>, and asks for the target's path followed by \<open>;\<close> and its
  parameters, \<open>?\<close> and its query, \<open>#\<close> and its fragment, each left out if empty.
  At most 10 redirects are followed, so at most 11 requests are sent; and if every
  response redirects, the download sends exactly 11 requests and fails with the
  \<open>HTTPException\<close> "Too many redirects".
\<close>

theorem redirects_followed:
  "download_file urlparse urljoin net url = download_by_hops False urlparse urljoin net url
   \<and> length (snd (download_file urlparse urljoin net url)) \<le> Suc max_redirects
   \<and> (\<forall>resp loc.
        net \<lparr>https = (scheme (urlparse url) = ''https''), host = netloc (urlparse url),
             target = path (urlparse url)\<rparr> = Inr resp
        \<and> status resp \<in> {301, 302, 303, 307, 308} \<and> location resp = Some loc \<and> loc \<noteq> [] \<longrightarrow>
        (let u = urlparse (if netloc (urlparse loc) = [] then urljoin url loc else loc)
         in take 2 (snd (download_file urlparse urljoin net url)) =
              [\<lparr>https = (scheme (urlparse url) = ''https''), host = netloc (urlparse url),
                target = path (urlparse url)\<rparr>,
               \<lparr>https = (scheme u = ''https''), host = netloc u,
                target = path u
                  @ (if params u = [] then [] else '';'' @ params u)
                  @ (if query u = [] then [] else ''?'' @ query u)
                  @ (if fragment u = [] then [] else ''#'' @ fragment u)\<rparr>]))
   \<and> ((\<forall>rq. \<exists>resp. net rq = Inr resp \<and> redirecting resp) \<longrightarrow>
        (\<exists>u. fst (download_file urlparse urljoin net url) = Inl (too_many_redirects u))
        \<and> length (snd (download_file urlparse urljoin net url)) = Suc max_redirects)"
proof (intro conjI allI impI)
  show eq: "download_file urlparse urljoin net url = download_by_hops False urlparse urljoin net url"
    by (rule download_file_by_hops)
  show "length (snd (download_file urlparse urljoin net url)) \<le> Suc max_redirects"
    unfolding eq max_redirects_def using length_download_by_hops [of False urlparse urljoin net url]
    by simp
next
  fix resp loc
  assume a: "net \<lparr>https = (scheme (urlparse url) = ''https''), host = netloc (urlparse url),
             target = path (urlparse url)\<rparr> = Inr resp
        \<and> status resp \<in> {301, 302, 303, 307, 308} \<and> location resp = Some loc \<and> loc \<noteq> []"
  then have n: "net \<lparr>https = (scheme (urlparse url) = ''https''), host = netloc (urlparse url),
                   target = path (urlparse url)\<rparr> = Inr resp"
    and r: "redirecting resp" and l: "location resp = Some loc"
    by (simp_all add: redirecting_def)
  show "let u = urlparse (if netloc (urlparse loc) = [] then urljoin url loc else loc)
         in take 2 (snd (download_file urlparse urljoin net url)) =
              [\<lparr>https = (scheme (urlparse url) = ''https''), host = netloc (urlparse url),
                target = path (urlparse url)\<rparr>,
               \<lparr>https = (scheme u = ''https''), host = netloc u,
                target = path u
                  @ (if params u = [] then [] else '';'' @ params u)
                  @ (if query u = [] then [] else ''?'' @ query u)
                  @ (if fragment u = [] then [] else ''#'' @ fragment u)\<rparr>]"
    unfolding download_file_by_hops
      first_hop [where net = net and urlparse = urlparse and url = url and b = False
        and urljoin = urljoin, OF n r l]
    by (simp add: Let_def request_to_def with_separator_def)
next
  assume all: "\<forall>rq. \<exists>resp. net rq = Inr resp \<and> redirecting resp"
  from download_all_redirecting [OF all, of False urlparse urljoin url] obtain u s where
    h: "download_by_hops False urlparse urljoin net url = (Inl (too_many_redirects u), s)" "length s = 11"
    by blast
  show "\<exists>u. fst (download_file urlparse urljoin net url) = Inl (too_many_redirects u)"
    using h download_file_by_hops [of urlparse urljoin net url] by auto
  show "length (snd (download_file urlparse urljoin net url)) = Suc max_redirects"
    using h download_file_by_hops [of urlparse urljoin net url] by (simp add: max_redirects_def)
qed

text \<open>
  The chain of the counterexample, whose first redirect has a query, and a network
  in which every response redirects.
\<close>

theorem redirects_followed_witness:
  "(net_example \<lparr>https = False, host = ''a.example'', target = ''/dir/list.txt''\<rparr>
      = Inr \<lparr>status = 301, location = Some ''http://b.example/new/list.txt?v=2'', body = Data []\<rparr>
    \<and> take 2 (snd (download_file urlparse_example urljoin_example net_example
                     ''http://a.example/dir/list.txt'')) =
        [\<lparr>https = False, host = ''a.example'', target = ''/dir/list.txt''\<rparr>,
         \<lparr>https = False, host = ''b.example'', target = ''/new/list.txt?v=2''\<rparr>])
   \<and> (\<forall>rq. \<exists>resp. net_loop rq = Inr resp \<and> redirecting resp)
   \<and> (\<exists>u. fst (download_file urlparse_example urljoin_example net_loop ''http://a.example/dir/list.txt'')
          = Inl (too_many_redirects u))
   \<and> length (snd (download_file urlparse_example urljoin_example net_loop ''http://a.example/dir/list.txt''))
       = Suc max_redirects"
proof -
  have first: "net_example \<lparr>https = False, host = ''a.example'', target = ''/dir/list.txt''\<rparr>
      = Inr \<lparr>status = 301, location = Some ''http://b.example/new/list.txt?v=2'', body = Data []\<rparr>"
    by (simp add: net_example_def)
  have "\<forall>resp loc.
        net_example \<lparr>https = (scheme (urlparse_example ''http://a.example/dir/list.txt'') = ''https''),
             host = netloc (urlparse_example ''http://a.example/dir/list.txt''),
             target = path (urlparse_example ''http://a.example/dir/list.txt'')\<rparr> = Inr resp
        \<and> status resp \<in> {301, 302, 303, 307, 308} \<and> location resp = Some loc \<and> loc \<noteq> [] \<longrightarrow>
        (let u = urlparse_example (if netloc (urlparse_example loc) = []
                   then urljoin_example ''http://a.example/dir/list.txt'' loc else loc)
         in take 2 (snd (download_file urlparse_example urljoin_example net_example
                     ''http://a.example/dir/list.txt'')) =
              [\<lparr>https = (scheme (urlparse_example ''http://a.example/dir/list.txt'') = ''https''),
                host = netloc (urlparse_example ''http://a.example/dir/list.txt''),
                target = path (urlparse_example ''http://a.example/dir/list.txt'')\<rparr>,
               \<lparr>https = (scheme u = ''https''), host = netloc u,
                target = path u
                  @ (if params u = [] then [] else '';'' @ params u)
                  @ (if query u = [] then [] else ''?'' @ query u)
                  @ (if fragment u = [] then [] else ''#'' @ fragment u)\<rparr>])"
    using redirects_followed [of urlparse_example urljoin_example net_example
        "''http://a.example/dir/list.txt''"] by blast
  then have hop: "take 2 (snd (download_file urlparse_example urljoin_example net_example
                     ''http://a.example/dir/list.txt'')) =
        [\<lparr>https = False, host = ''a.example'', target = ''/dir/list.txt''\<rparr>,
         \<lparr>https = False, host = ''b.example'', target = ''/new/list.txt?v=2''\<rparr>]"
    by (simp add: urlparse_example_def no_url_def net_example_def Let_def)
  have all: "\<forall>rq. \<exists>resp. net_loop rq = Inr resp \<and> redirecting resp"
    by (simp add: net_loop_def redirecting_def)
  with redirects_followed [of urlparse_example urljoin_example net_loop "''http://a.example/dir/list.txt''"]
  have "(\<exists>u. fst (download_file urlparse_example urljoin_example net_loop ''http://a.example/dir/list.txt'')
          = Inl (too_many_redirects u))
   \<and> length (snd (download_file urlparse_example urljoin_example net_loop ''http://a.example/dir/list.txt''))
       = Suc max_redirects" by blast
  with first hop all show ?thesis by blast
qed

section \<open>The capacity invariant\<close>

lemma preservesD: "preserves I m \<Longrightarrow> I w \<Longrightarrow> m w = (r, w') \<Longrightarrow> I w'"
  unfolding preserves_def by blast

lemma preservesI: "(\<And>w r w'. I w \<Longrightarrow> m w = (r, w') \<Longrightarrow> I w') \<Longrightarrow> preserves I m"
  unfolding preserves_def by blast

lemma preserves_bindE:
  assumes "preserves I m" "\<And>x. preserves I (f x)"
  shows "preserves I (bindE m f)"
proof (rule preservesI)
  fix w r w'
  assume I: "I w" and "bindE m f w = (r, w')"
  from this(2) show "I w'"
  proof (cases rule: bindE_cases)
    case (fail e)
    then show ?thesis using preservesD [OF assms(1) I] by blast
  next
    case (ok x w1)
    from preservesD [OF assms(1) I ok(1)] have "I w1" .
    from preservesD [OF assms(2) this ok(2)] show ?thesis .
  qed
qed

lemma preserves_if:
  "(c \<Longrightarrow> preserves I a) \<Longrightarrow> (\<not> c \<Longrightarrow> preserves I b) \<Longrightarrow> preserves I (if c then a else b)"
  by simp

lemma preserves_same_items:
  "(\<And>w r w'. m w = (r, w') \<Longrightarrow> srv_items w' = srv_items w) \<Longrightarrow> preserves within_capacity m"
  by (rule preservesI) (simp add: within_capacity_def)

lemma cap_returnE [simp]: "preserves within_capacity (returnE x)"
  by (rule preserves_same_items) (simp add: returnE_def)

lemma cap_raiseE [simp]: "preserves within_capacity (raiseE e)"
  by (rule preserves_same_items) (simp add: raiseE_def)

lemma cap_liftE [simp]: "preserves within_capacity (liftE x)"
  by (rule preserves_same_items) (simp add: liftE_def)

lemma cap_save_cache [simp]: "preserves within_capacity save_cache"
  by (rule preserves_same_items) (auto simp: save_cache_def modify_def)

lemma cap_set_mapping [simp]: "preserves within_capacity (set_mapping i xs)"
  by (rule preserves_same_items) (auto simp: set_mapping_def modify_def)

lemma cap_modify_cache [simp]: "preserves within_capacity (modify (\<lambda>w. w\<lparr>mem_cache := g w\<rparr>))"
  by (rule preserves_same_items) (auto simp: modify_def)

lemma cap_get_lists [simp]: "preserves within_capacity (get_lists p)"
  by (rule preserves_same_items)
     (auto simp: get_lists_def GET_lists_def bindE_def returnE_def split: if_splits)

lemma cap_get_rules [simp]: "preserves within_capacity (get_rules p)"
  by (rule preserves_same_items)
     (auto simp: get_rules_def GET_rules_def bindE_def returnE_def split: if_splits)

lemma cap_get_list_items [simp]: "preserves within_capacity (get_list_items i)"
  by (rule preserves_same_items)
     (auto simp: get_list_items_def GET_list_items_def split: if_splits option.splits)

lemma cap_create_rule [simp]: "preserves within_capacity (create_rule n ids)"
  by (rule preserves_same_items)
     (auto simp: create_rule_def POST_rule_def Let_def issue_def split: if_splits)

lemma cap_update_rule [simp]: "preserves within_capacity (update_rule n i ids)"
  by (rule preserves_same_items)
     (auto simp: update_rule_def PUT_rule_def Let_def issue_def split: if_splits)

lemma cap_delete_list [simp]: "preserves within_capacity (delete_list i)"
  by (rule preservesI)
     (auto simp: within_capacity_def delete_list_def DELETE_list_def Let_def issue_def split: if_splits)

lemma cap_get_current_lists [simp]: "preserves within_capacity (get_current_lists n)"
  by (rule preserves_same_items)
     (auto simp: get_current_lists_def get_lists_def GET_lists_def bindE_def returnE_def modify_def
        save_cache_def split: if_splits)

lemma cap_get_current_rules [simp]: "preserves within_capacity (get_current_rules n)"
  by (rule preserves_same_items)
     (auto simp: get_current_rules_def get_rules_def GET_rules_def bindE_def returnE_def modify_def
        save_cache_def split: if_splits)

lemma cap_get_list_items_cached [simp]: "preserves within_capacity (get_list_items_cached i)"
  by (rule preserves_same_items)
     (auto simp: get_list_items_cached_def get_list_items_def GET_list_items_def bindE_def
        returnE_def modify_def set_mapping_def save_cache_def split: if_splits option.splits)

lemma cap_list_id_to_domains [simp]: "preserves within_capacity (list_id_to_domains ls)"
  by (induction ls) (auto intro!: preserves_bindE)

lemma cap_delete_orphaned_lists: "preserves within_capacity (delete_orphaned_lists ls n)"
proof (rule preservesI)
  fix w r w'
  show "within_capacity w \<Longrightarrow> delete_orphaned_lists ls n w = (r, w') \<Longrightarrow> within_capacity w'"
  proof (induction ls arbitrary: n w)
    case Nil
    then show ?case by simp
  next
    case (Cons l ls)
    obtain r0 w0 where d: "delete_list (lid l) w = (r0, w0)" by (cases "delete_list (lid l) w")
    from preservesD [OF cap_delete_list Cons.prems(1) d] have c0: "within_capacity w0" .
    then have c1: "within_capacity (silent_error msg w0)" for msg
      by (simp add: within_capacity_def silent_error_def)
    from Cons.prems(2) d c0 c1 Cons.IH show ?case
      by (cases r0) (auto split: if_splits)
  qed
qed

lemma cap_reclaim: "preserves within_capacity (reclaim p)"
  unfolding reclaim_def Let_def
  by (intro preserves_bindE preserves_if cap_delete_orphaned_lists) simp_all

lemma cap_sync_rule: "preserves within_capacity (sync_rule p rules ids)"
  unfolding sync_rule_def Let_def
  by (auto split: option.splits intro!: preserves_bindE)

lemma cap_inventory: "preserves within_capacity (inventory p ds)"
  unfolding inventory_def by (intro preserves_bindE) simp_all


lemma not_found_error_plain [simp]:
  "not_found_error request_failed = None" "not_found_error no_such_resource = None"
  by (simp_all add: not_found_error_def request_failed_def no_such_resource_def startswith_def)

lemma PATCH_list_accepts:
  assumes "srv_items w i = Some items" "set rm \<subseteq> set items"
    and "PATCH_list i rm ap w = (r, w')"
  shows "r = Inl request_failed \<and> srv_items w' = srv_items w
       \<or> r = Inr () \<and> srv_items w' = (srv_items w)
             (i \<mapsto> filter (\<lambda>d. d \<notin> set rm) items
                   @ filter (\<lambda>d. d \<notin> set (filter (\<lambda>d. d \<notin> set rm) items)) (remdups ap))"
proof -
  have "find (\<lambda>d. d \<notin> set items) rm = None"
    using assms(2) by (auto simp: find_None_iff)
  with assms(1,3) show ?thesis
    by (auto simp: PATCH_list_def Let_def issue_def split: if_splits)
qed

lemma update_list_PATCH_once:
  assumes "srv_items w i = Some items" "set rm \<subseteq> set items"
    and "update_list (PATCH_list i) rm ap w = (r, w')"
  shows "\<exists>r0. PATCH_list i rm ap w = (r0, w')"
proof -
  obtain r0 w0 where p: "PATCH_list i rm ap w = (r0, w0)" by (cases "PATCH_list i rm ap w")
  from PATCH_list_accepts [OF assms(1,2) p] have "r0 = Inl request_failed \<or> r0 = Inr ()" by blast
  then have "w' = w0"
  proof
    assume "r0 = Inl request_failed"
    with p have "update_list (PATCH_list i) rm ap w = (Inl request_failed, w0)"
      by (simp add: update_list_unfold update_attempts_step del: update_attempts.simps)
    with assms(3) show ?thesis by simp
  next
    assume "r0 = Inr ()"
    with p have "update_list (PATCH_list i) rm ap w = (Inr (Some ()), w0)"
      by (simp add: update_list_unfold)
    with assms(3) show ?thesis by simp
  qed
  with p show ?thesis by blast
qed

lemma within_capacity_update:
  "within_capacity w \<Longrightarrow> distinct xs \<Longrightarrow> length xs \<le> 1000 \<Longrightarrow>
   srv_items w' = (srv_items w)(i \<mapsto> xs) \<Longrightarrow> within_capacity w'"
  by (simp add: within_capacity_def)

lemma within_capacity_same:
  "within_capacity w \<Longrightarrow> srv_items w' = srv_items w \<Longrightarrow> within_capacity w'"
  by (simp add: within_capacity_def)

lemma cap_create_list:
  "distinct ds \<Longrightarrow> length ds \<le> 1000 \<Longrightarrow> preserves within_capacity (create_list n ds)"
  by (rule preservesI)
     (auto simp: within_capacity_def create_list_def POST_list_def Let_def issue_def split: if_splits)


lemma process_index_capacity:
  assumes cap: "within_capacity w" and dist: "distinct (fst st)"
    and run: "process_index p ds m i st w = (r, w')"
  shows "within_capacity w' \<and> (\<forall>st'. r = Inr st' \<longrightarrow> distinct (fst st'))"
proof (cases "m (indexed_name p i)")
  case None
  show ?thesis
  proof (cases "fst st \<noteq> [] \<and> length (snd st) < MAX_LISTS")
    case False
    with run None cap dist show ?thesis
      by (auto simp: process_index_def Let_def returnE_def raiseE_def split: if_splits)
  next
    case True
    define new_items where "new_items = take (min 1000 (length (fst st))) (fst st)"
    have ni: "distinct new_items" "length new_items \<le> 1000"
      using dist by (simp_all add: new_items_def)
    obtain r0 w0 where c: "create_list (indexed_name p i) new_items w = (r0, w0)"
      by (cases "create_list (indexed_name p i) new_items w")
    from preservesD [OF cap_create_list [OF ni] cap c] have c0: "within_capacity w0" .
    from run None True c have
      "(case r0 of Inl e \<Rightarrow> (Inl e, w0)
        | Inr lst \<Rightarrow>
            (Inr (filter (\<lambda>d. d \<notin> set new_items) (fst st), snd st @ [lid lst]),
             w0\<lparr>mem_cache := (mem_cache w0)
                 \<lparr>c_lists := c_lists (mem_cache w0) @ [lst],
                  c_mapping := (c_mapping (mem_cache w0))(lid lst \<mapsto> new_items)\<rparr>\<rparr>)) = (r, w')"
      by (simp add: process_index_def Let_def bindE_def returnE_def modify_def set_mapping_def
          new_items_def split: sum.splits)
    with c0 dist show ?thesis
      by (cases r0) (auto simp: within_capacity_def)
  qed
next
  case (Some list_id)
  from run Some have run': "bindE (get_list_items list_id) (\<lambda>items.
               let current_values = remdups items;
                   remove_items = filter (\<lambda>d. d \<notin> set ds) current_values;
                   chunk = filter (\<lambda>d. d \<notin> set remove_items) current_values;
                   new_items = (if length chunk < 1000
                                then take (1000 - length chunk) (fst st) else []);
                   chunk' = chunk @ filter (\<lambda>d. d \<notin> set chunk) new_items;
                   remaining_domains' = filter (\<lambda>d. d \<notin> set new_items) (fst st)
               in bindE (if remove_items \<noteq> [] \<or> new_items \<noteq> []
                         then bindE (update_list (PATCH_list list_id) remove_items new_items)
                                (\<lambda>_. set_mapping list_id chunk')
                         else returnE ())
                    (\<lambda>_. returnE (remaining_domains', snd st @ [list_id]))) w = (r, w')"
    by (simp add: process_index_def Let_def)
  from run' show ?thesis
  proof (cases rule: bindE_cases)
    case (fail e)
    then have "w' = w"
      by (auto simp: get_list_items_def GET_list_items_def split: if_splits option.splits)
    with cap fail show ?thesis by simp
  next
    case (ok items w1)
    then obtain full where g: "w1 = w" "srv_items w list_id = Some full" "items = take 1000 full"
      by (auto simp: get_list_items_def GET_list_items_def split: if_splits option.splits)
    from cap g(2) have full: "distinct full" "length full \<le> 1000"
      by (auto simp: within_capacity_def)
    with g(3) have items: "items = full" by simp
    define remove_items where "remove_items = filter (\<lambda>d. d \<notin> set ds) full"
    define chunk where "chunk = filter (\<lambda>d. d \<notin> set remove_items) full"
    define new_items where "new_items =
      (if length chunk < 1000 then take (1000 - length chunk) (fst st) else [])"
    define rest where "rest = filter (\<lambda>d. d \<notin> set new_items) (fst st)"
    have rd: "remdups full = full" using full(1) by (simp add: distinct_remdups_id)
    have "length chunk \<le> length full" unfolding chunk_def by (rule length_filter_le)
    with full(2) have lc: "length chunk \<le> 1000" by simp
    have fit: "length chunk + length new_items \<le> 1000"
      using lc by (auto simp: new_items_def min_def)
    have dist_rest: "distinct rest" using dist by (simp add: rest_def)
    from ok(2) have body: "bindE (if remove_items \<noteq> [] \<or> new_items \<noteq> []
                         then bindE (update_list (PATCH_list list_id) remove_items new_items)
                                (\<lambda>_. set_mapping list_id (chunk @ filter (\<lambda>d. d \<notin> set chunk) new_items))
                         else returnE ())
                    (\<lambda>_. returnE (rest, snd st @ [list_id])) w = (r, w')"
      by (simp only: Let_def items rd g(1) remove_items_def chunk_def new_items_def rest_def)
    have upd: "within_capacity w2"
      if "update_list (PATCH_list list_id) remove_items new_items w = (r2, w2)" for r2 w2
    proof -
      have sub: "set remove_items \<subseteq> set full" by (auto simp: remove_items_def)
      from update_list_PATCH_once [OF g(2) sub that] obtain r0 where
        p: "PATCH_list list_id remove_items new_items w = (r0, w2)" by blast
      from PATCH_list_accepts [OF g(2) sub p] show ?thesis
      proof
        assume "r0 = Inl request_failed \<and> srv_items w2 = srv_items w"
        with cap show ?thesis by (simp add: within_capacity_same)
      next
        assume a: "r0 = Inr () \<and> srv_items w2 = (srv_items w)
             (list_id \<mapsto> filter (\<lambda>d. d \<notin> set remove_items) full
                   @ filter (\<lambda>d. d \<notin> set (filter (\<lambda>d. d \<notin> set remove_items) full)) (remdups new_items))"
        have "length (filter (\<lambda>d. d \<notin> set chunk) (remdups new_items)) \<le> length new_items"
          by (rule order_trans [OF length_filter_le length_remdups_leq])
        with fit have "length (chunk @ filter (\<lambda>d. d \<notin> set chunk) (remdups new_items)) \<le> 1000"
          by simp
        moreover have "distinct (chunk @ filter (\<lambda>d. d \<notin> set chunk) (remdups new_items))"
          using full(1) by (auto simp: chunk_def)
        ultimately show ?thesis
          using a cap by (intro within_capacity_update [OF cap]) (simp_all add: chunk_def)
      qed
    qed
    from body show ?thesis
    proof (cases rule: bindE_cases)
      case (fail e)
      then show ?thesis using upd cap
        by (auto simp: returnE_def set_mapping_def modify_def split: if_splits elim!: bindE_cases)
    next
      case (ok u w3)
      from ok(1) have "within_capacity w3" using upd cap
        by (auto simp: returnE_def set_mapping_def modify_def within_capacity_def
            split: if_splits elim!: bindE_cases)
      with ok(2) dist_rest show ?thesis by (auto simp: returnE_def)
    qed
  qed
qed


lemma process_indexes_capacity:
  "within_capacity w \<Longrightarrow> distinct (fst st) \<Longrightarrow>
   process_indexes p ds m is st w = (r, w') \<Longrightarrow> within_capacity w'"
proof (induction "is" arbitrary: st w)
  case Nil
  then show ?case by (simp add: returnE_def)
next
  case (Cons i rest)
  from Cons.prems(3) have
    "bindE (process_index p ds m i st) (process_indexes p ds m rest) w = (r, w')" by simp
  then show ?case
  proof (cases rule: bindE_cases)
    case (fail e)
    from process_index_capacity [OF Cons.prems(1,2) fail(1)] show ?thesis by simp
  next
    case (ok st1 w1)
    from process_index_capacity [OF Cons.prems(1,2) ok(1)]
    have "within_capacity w1" "distinct (fst st1)" by simp_all
    from Cons.IH [OF this ok(2)] show ?thesis .
  qed
qed

lemma inventory_distinct:
  "inventory p ds w = (Inr iv, w1) \<Longrightarrow> distinct (snd iv)"
  unfolding inventory_def
  by (auto elim!: bindE_cases simp: returnE_def)

lemma cap_assign_domains: "preserves within_capacity (assign_domains p ds)"
proof (rule preservesI)
  fix w r w'
  assume cap: "within_capacity w" and "assign_domains p ds w = (r, w')"
  from this(2) show "within_capacity w'"
    unfolding assign_domains_def Let_def
  proof (cases rule: bindE_cases)
    case (fail e)
    from preservesD [OF cap_inventory cap fail(1)] show ?thesis .
  next
    case (ok iv w1)
    from preservesD [OF cap_inventory cap ok(1)] have c1: "within_capacity w1" .
    from inventory_distinct [OF ok(1)] have d: "distinct (fst (snd iv, []::nat list))" by simp
    from ok(2) show ?thesis
    proof (cases rule: bindE_cases)
      case (fail e)
      with c1 show ?thesis by (simp add: liftE_def)
    next
      case (ok indexes w2)
      then have w2: "w2 = w1" by (simp add: liftE_def)
      from ok(2) show ?thesis
      proof (cases rule: bindE_cases)
        case (fail e)
        from process_indexes_capacity [OF c1 d fail(1) [unfolded w2]] show ?thesis .
      next
        case (ok st w3)
        from process_indexes_capacity [OF c1 d ok(1) [unfolded w2]] ok(2)
        show ?thesis by (simp add: returnE_def)
      qed
    qed
  qed
qed

lemma cap_update_resources: "preserves within_capacity (update_resources p ds)"
  unfolding update_resources_def
  by (intro preserves_if preserves_bindE cap_reclaim cap_assign_domains cap_sync_rule) simp_all

lemma assign_domains_length:
  assumes "assign_domains p ds w = (Inr ids, w')"
  shows "length ids \<le> MAX_LISTS"
  using assms unfolding assign_domains_def Let_def
proof (cases rule: bindE_cases)
  case (ok iv w1)
  from ok(2) show ?thesis
  proof (cases rule: bindE_cases)
    case (ok indexes w2)
    then have ai: "all_indexes (fst iv) (length ds) = Inr indexes" by (simp add: liftE_def)
    from ok(2) show ?thesis
    proof (cases rule: bindE_cases)
      case (ok st w3)
      have "length (snd (snd iv, []::nat list)) + length indexes \<le> MAX_LISTS"
        using length_all_indexes [OF ai] by simp
      from process_indexes_http [OF this ok(1)] ok(2) length_all_indexes [OF ai]
      show ?thesis by (auto simp: returnE_def)
    qed simp
  qed simp
qed simp

text \<open>
  What holds of every pass. If every remote list holds at most 1000 items (without
  duplicates) when a pass starts, so does every remote list when the pass ends,
  however it ends: an existing list is topped up to 1000 at most and a new list is
  created with at most 1000 items. And the lists in use that the assignment stage
  returns, which are the ones the rule is then made to reference, number at most
  \<open>MAX_LISTS\<close>. The number of lists on the remote is another matter: see the
  section on the remote list count.
\<close>

theorem capacity_invariant:
  "(within_capacity w \<longrightarrow> within_capacity (snd (update_resources prefix domains_to_block w)))
   \<and> (assign_domains prefix domains_to_block w = (Inr new_list_ids, w') \<longrightarrow>
        length new_list_ids \<le> MAX_LISTS)"
proof (intro conjI impI)
  assume "within_capacity w"
  then show "within_capacity (snd (update_resources prefix domains_to_block w))"
    using preservesD [OF cap_update_resources, of w prefix domains_to_block]
    by (cases "update_resources prefix domains_to_block w") simp
next
  assume "assign_domains prefix domains_to_block w = (Inr new_list_ids, w')"
  then show "length new_list_ids \<le> MAX_LISTS" by (rule assign_domains_length)
qed

lemma two_orphans_within_capacity: "within_capacity two_orphans_world"
  by (simp add: within_capacity_def two_orphans_world_def)

lemma fresh_world_assign:
  "assign_domains ''p'' [''a.com'', ''b.com''] fresh_world =
     (Inr [0], snd (assign_domains ''p'' [''a.com'', ''b.com''] fresh_world))"
  by (simp add: eval_defs fresh_world_def)

theorem capacity_invariant_witness:
  "within_capacity two_orphans_world
   \<and> within_capacity (snd (update_resources ''p'' [''a.com'', ''b.com'', ''c.com''] two_orphans_world))
   \<and> assign_domains ''p'' [''a.com'', ''b.com''] fresh_world =
       (Inr [0], snd (assign_domains ''p'' [''a.com'', ''b.com''] fresh_world))
   \<and> length [0::nat] \<le> MAX_LISTS"
  using capacity_invariant [where w = two_orphans_world and prefix = "''p''"
      and domains_to_block = "[''a.com'', ''b.com'', ''c.com'']"]
    capacity_invariant [where w = fresh_world and prefix = "''p''"
      and domains_to_block = "[''a.com'', ''b.com'']" and new_list_ids = "[0]"
      and w' = "snd (assign_domains ''p'' [''a.com'', ''b.com''] fresh_world)"]
    two_orphans_within_capacity fresh_world_assign
  by blast

section \<open>The number of lists on the remote\<close>

text \<open>
  The decimal digits of a number, read back: \<open>int\<close> of the last token of an indexed
  name is the index, and different indexes have different names.
\<close>

lemma digit_char_props:
  "d < 10 \<Longrightarrow> is_digit (digit_char d) \<and> digit_val (digit_char d) = d"
  by (simp add: is_digit_def digit_val_def digit_char_def)

lemma dec_props: "list_all is_digit (dec n) \<and> dec n \<noteq> []
    \<and> foldl (\<lambda>a c. a * 10 + digit_val c) 0 (dec n) = n"
proof (induction n rule: dec.induct)
  case (1 n)
  show ?case
  proof (cases "n < 10")
    case True
    then show ?thesis by (subst (1 2 3) dec.simps) (simp add: digit_char_props)
  next
    case False
    with 1 have ih: "list_all is_digit (dec (n div 10))" "dec (n div 10) \<noteq> []"
      "foldl (\<lambda>a c. a * 10 + digit_val c) 0 (dec (n div 10)) = n div 10" by simp_all
    have d: "n mod 10 < 10" by simp
    from False ih digit_char_props [OF d] show ?thesis
      by (subst (1 2 3) dec.simps) simp
  qed
qed

lemma foldl_zeros: "foldl (\<lambda>a c. a * 10 + digit_val c) 0 (replicate k (CHR ''0'')) = 0"
  by (induction k) (simp_all add: digit_val_def)

lemma fmt03_props: "list_all is_digit (fmt03 i) \<and> fmt03 i \<noteq> []
    \<and> foldl (\<lambda>a c. a * 10 + digit_val c) 0 (fmt03 i) = i"
proof -
  have z: "is_digit (CHR ''0'')" by (simp add: is_digit_def)
  have "list_all is_digit (replicate k (CHR ''0''))" for k
    using z by (induction k) simp_all
  with dec_props [of i] show ?thesis
    by (simp add: fmt03_def foldl_zeros)
qed

lemma dec_body_digits:
  "list_all is_digit s \<Longrightarrow> dec_body acc s = Some (foldl (\<lambda>a c. a * 10 + digit_val c) acc s)"
  by (induction acc s rule: dec_body.induct) simp_all

lemma dec_literal_digits:
  "list_all is_digit s \<Longrightarrow> s \<noteq> [] \<Longrightarrow>
   dec_literal s = Some (foldl (\<lambda>a c. a * 10 + digit_val c) 0 s)"
  by (cases s) (simp_all add: dec_literal_def dec_body_digits)

lemma py_int_digits:
  assumes "list_all is_digit s" "s \<noteq> []"
  shows "py_int (CHR '' '' # s) = Some (int (foldl (\<lambda>a c. a * 10 + digit_val c) 0 s))"
proof -
  have ns: "\<not> is_int_space c" if "is_digit c" for c
    using that by (auto simp: is_int_space_def is_digit_def)
  from assms obtain c cs where s: "s = c # cs" "is_digit c" by (cases s) auto
  from assms have l: "is_digit (last s)" by (simp add: list_all_iff)
  have 1: "dropWhile is_int_space (CHR '' '' # s) = s"
    using s ns by (simp add: is_int_space_def)
  have 2: "dropWhile is_int_space (rev s) = rev s"
    using assms(2) ns [OF l] by (cases "rev s") (auto simp: last_rev [symmetric] hd_rev)
  have st: "int_strip (CHR '' '' # s) = s"
    by (simp only: int_strip_def 1 2 rev_rev_ident)
  have sign: "c \<noteq> CHR ''-''" "c \<noteq> CHR ''+''" using s(2) by (auto simp: is_digit_def)
  show ?thesis
    using sign dec_literal_digits [OF assms]
    by (simp add: py_int_def st s(1) [symmetric]) (simp add: s(1))
qed

lemma last_token_indexed_name: "last_token (indexed_name p i) = CHR '' '' # fmt03 i"
proof -
  have n: "CHR ''-'' \<notin> set (rev (CHR '' '' # fmt03 i))"
    using fmt03_props [of i] by (auto simp: list_all_iff is_digit_def)
  have "rev (indexed_name p i) = rev (CHR '' '' # fmt03 i) @ CHR ''-'' # rev (list_name_of p @ '' '')"
    by (simp add: indexed_name_def)
  then show ?thesis
    unfolding last_token_def using takeWhile_until [OF n] by simp
qed

lemma py_int_indexed_name: "py_int (last_token (indexed_name p i)) = Some (int i)"
  using fmt03_props [of i] py_int_digits [of "fmt03 i"] by (simp add: last_token_indexed_name)

lemma indexed_name_inj: "indexed_name p i = indexed_name p j \<Longrightarrow> i = j"
proof -
  assume "indexed_name p i = indexed_name p j"
  then have "fmt03 i = fmt03 j" by (simp add: indexed_name_def)
  with fmt03_props [of i] fmt03_props [of j] show ?thesis by metis
qed

lemma crowded_indexes_props:
  "set crowded_indexes = {4..<301}" "distinct crowded_indexes" "length crowded_indexes = 297"
  "crowded_indexes \<noteq> []"
  by (auto simp add: crowded_indexes_def simp del: upt_rec_numeral)

lemma dec_inj: "dec m = dec n \<Longrightarrow> m = n"
  using dec_props [of m] dec_props [of n] by metis

lemma many_domains_props: "distinct many_domains" "length many_domains = 2001"
  by (auto simp add: many_domains_def distinct_map inj_on_def simp del: upt_rec_numeral dest: dec_inj)

lemma distinct_indexed_names: "distinct is \<Longrightarrow> distinct (map (indexed_name p) is)"
  by (auto simp: distinct_map inj_on_def dest: indexed_name_inj)

lemma parse_indexes_indexed: "parse_indexes (map (indexed_name p) is) = Inr (map int is)"
  by (induction "is") (simp_all add: py_int_indexed_name)

lemma crowded_names: "map lname (srv_lists crowded_world) = map (indexed_name ''p'') crowded_indexes"
  by (simp add: crowded_world_def comp_def)

lemma fold_max: "fold max xs (n::int) = Max (insert n (set xs))"
  using Max.set_eq_fold [of n xs] by simp

lemma upt_299: "[1..<299] = [1, 2, 3] @ [4..<299]"
proof -
  have "[1..<4 + 295] = [1..<4] @ [4..<4 + 295]"
    by (rule upt_add_eq_append) simp
  moreover have "4 + 295 = (299::nat)" by simp
  moreover have "[1..<4] = [1, 2, 3]" by (simp add: upt_rec)
  ultimately show ?thesis by (simp only:)
qed

lemma rev_remdups_rev: "distinct xs \<Longrightarrow> rev (remdups (rev xs)) = xs"
  by (simp add: distinct_remdups_id)

lemma crowded_all_indexes: "all_indexes (srv_lists crowded_world) 2001 = Inr ([1, 2, 3] @ [4..<299])"
proof -
  have k: "dict_keys (srv_lists crowded_world) = map (indexed_name ''p'') crowded_indexes"
    using rev_remdups_rev [OF distinct_indexed_names [OF crowded_indexes_props(2), of "''p''"]]
    by (simp only: dict_keys_def crowded_names)
  have m: "Max (insert 3 (int ` {4..<301})) = 300"
    by (rule Max_eqI) auto
  have ne: "sort (map int crowded_indexes) \<noteq> []"
    using crowded_indexes_props(4) by (metis length_sort length_map length_0_conv)
  have "all_indexes (srv_lists crowded_world) 2001 = Inr [1..<299]"
    by (simp add: all_indexes_def k parse_indexes_indexed Let_def ne fold_max m MAX_LISTS_def
        crowded_indexes_props(1) del: upt_rec_numeral upt_Suc)
  then show ?thesis by (simp only: upt_299)
qed

lemma lookup_indexed:
  assumes "distinct is"
  shows "map_of (rev (map (\<lambda>i. (indexed_name p i, i)) is)) (indexed_name p j) =
     (if j \<in> set is then Some j else None)"
proof (cases "j \<in> set is")
  case True
  have "distinct (map fst (rev (map (\<lambda>i. (indexed_name p i, i)) is)))"
    using distinct_indexed_names [OF assms, of p] by (simp add: rev_map [symmetric] comp_def)
  moreover from True have "(indexed_name p j, j) \<in> set (rev (map (\<lambda>i. (indexed_name p i, i)) is))"
    by auto
  ultimately show ?thesis using True by (simp add: map_of_is_SomeI del: set_rev)
next
  case False
  then have "indexed_name p j \<notin> fst ` set (rev (map (\<lambda>i. (indexed_name p i, i)) is))"
    by (auto dest: indexed_name_inj)
  with False show ?thesis by (simp add: map_of_eq_None_iff del: set_rev)
qed

lemma crowded_lookup:
  "list_name_to_id (srv_lists crowded_world) (indexed_name ''p'' j) =
     (if 4 \<le> j \<and> j < 301 then Some j else None)"
  using lookup_indexed [OF crowded_indexes_props(2), of "''p''" j]
  by (simp add: list_name_to_id_def crowded_world_def comp_def crowded_indexes_props(1))


lemma same_remote_refl: "same_remote w w"
  by (simp add: same_remote_def)

lemma same_remote_trans: "same_remote w w1 \<Longrightarrow> same_remote w1 w2 \<Longrightarrow> same_remote w w2"
  by (simp add: same_remote_def)

lemma filter_all: "(\<And>x. x \<in> set xs \<Longrightarrow> P x) \<Longrightarrow> filter P xs = xs"
  by (induction xs) simp_all

lemma managed_indexed:
  "filter (\<lambda>l. startswith (lname l) (list_name_of p))
     (map (\<lambda>i. \<lparr>lid = g i, lname = indexed_name p i\<rparr>) is) =
   map (\<lambda>i. \<lparr>lid = g i, lname = indexed_name p i\<rparr>) is"
  by (rule filter_all) (auto simp: indexed_name_def)

lemma crowded_managed: "managed_lists ''p'' crowded_world = srv_lists crowded_world"
  by (simp add: managed_lists_def crowded_world_def managed_indexed)

lemma crowded_reclaim:
  "\<exists>w1. reclaim ''p'' crowded_world = (Inr (srv_rules crowded_world), w1)
     \<and> same_remote crowded_world w1
     \<and> c_lists (mem_cache w1) = [] \<and> c_mapping (mem_cache w1) = (\<lambda>_. None)"
proof -
  have f: "\<not> faults crowded_world GetLists" by (simp add: crowded_world_def)
  define w1 where "w1 = crowded_world
      \<lparr>mem_cache := empty_cache\<lparr>c_rules := srv_rules crowded_world\<rparr>,
       disk_cache := Some (empty_cache\<lparr>c_rules := srv_rules crowded_world\<rparr>)\<rparr>"
  have g: "get_current_rules (rule_name_of ''p'') crowded_world = (Inr (srv_rules crowded_world), w1)"
    by (simp add: get_current_rules_def get_rules_def GET_rules_def bindE_def returnE_def modify_def
        save_cache_def crowded_world_def empty_cache_def startswith_def rule_name_of_def w1_def)
  have o: "filter (\<lambda>lst. lid lst \<notin> extract_list_ids
              (find (\<lambda>rule. rname rule = rule_name_of ''p'') (srv_rules crowded_world)))
             (srv_lists crowded_world) = []"
    by (auto simp: crowded_world_def extract_list_ids_def rule_name_of_def filter_empty_conv)
  have n: "length (srv_lists crowded_world) = 297"
    by (simp add: crowded_world_def crowded_indexes_props)
  have "reclaim ''p'' crowded_world = (Inr (srv_rules crowded_world), w1)"
    by (simp add: reclaim_def bindE_def get_lists_managed [OF f] crowded_managed g Let_def o n
        MAX_LISTS_def returnE_def)
  moreover have "same_remote crowded_world w1" "c_lists (mem_cache w1) = []"
    "c_mapping (mem_cache w1) = (\<lambda>_. None)"
    by (simp_all add: same_remote_def w1_def empty_cache_def)
  ultimately show ?thesis by blast
qed

lemma list_id_to_domains_empty:
  assumes "\<forall>l \<in> set ls. srv_items w (lid l) = Some [] \<and> \<not> faults w (GetListItems (lid l))
             \<and> c_mapping (mem_cache w) (lid l) \<in> {None, Some []}"
  shows "\<exists>w'. list_id_to_domains ls w = (Inr (map (\<lambda>l. (lid l, [])) ls), w') \<and> same_remote w w'"
  using assms
proof (induction ls arbitrary: w)
  case Nil
  then show ?case by (simp add: returnE_def same_remote_refl)
next
  case (Cons l ls)
  have "\<exists>w0. get_list_items_cached (lid l) w = (Inr [], w0) \<and> same_remote w w0
          \<and> (\<forall>i. c_mapping (mem_cache w0) i = c_mapping (mem_cache w) i
                  \<or> c_mapping (mem_cache w0) i = Some [])"
    using Cons.prems
    by (auto simp: get_list_items_cached_def get_list_items_def GET_list_items_def bindE_def
        returnE_def modify_def set_mapping_def save_cache_def same_remote_def split: option.splits)
  then obtain w0 where w0: "get_list_items_cached (lid l) w = (Inr [], w0)" "same_remote w w0"
    "\<forall>i. c_mapping (mem_cache w0) i = c_mapping (mem_cache w) i \<or> c_mapping (mem_cache w0) i = Some []"
    by blast
  have "\<forall>l \<in> set ls. srv_items w0 (lid l) = Some [] \<and> \<not> faults w0 (GetListItems (lid l))
             \<and> c_mapping (mem_cache w0) (lid l) \<in> {None, Some []}"
  proof
    fix x assume x: "x \<in> set ls"
    with Cons.prems have "srv_items w (lid x) = Some []" "\<not> faults w (GetListItems (lid x))"
      "c_mapping (mem_cache w) (lid x) \<in> {None, Some []}" by auto
    with w0(2) w0(3) [rule_format, of "lid x"]
    show "srv_items w0 (lid x) = Some [] \<and> \<not> faults w0 (GetListItems (lid x))
             \<and> c_mapping (mem_cache w0) (lid x) \<in> {None, Some []}"
      by (auto simp: same_remote_def)
  qed
  from Cons.IH [OF this] obtain w' where
    "list_id_to_domains ls w0 = (Inr (map (\<lambda>l. (lid l, [])) ls), w')" "same_remote w0 w'" by blast
  with w0 show ?case
    by (auto simp: bindE_def returnE_def intro: same_remote_trans)
qed

lemma concat_empty: "concat (map snd (map (\<lambda>l. (f l, [])) ls)) = []"
  by (induction ls) simp_all

lemma crowded_inventory:
  assumes "same_remote crowded_world w1" "c_lists (mem_cache w1) = []"
    "c_mapping (mem_cache w1) = (\<lambda>_. None)"
  shows "\<exists>w2. inventory ''p'' many_domains w1 = (Inr (srv_lists crowded_world, many_domains), w2)
     \<and> same_remote crowded_world w2"
proof -
  have f: "\<not> faults w1 GetLists" using assms(1) by (simp add: same_remote_def crowded_world_def)
  have m: "managed_lists ''p'' w1 = srv_lists crowded_world"
    using assms(1) crowded_managed by (simp add: managed_lists_def same_remote_def)
  define w1' where "w1' = w1\<lparr>mem_cache := (mem_cache w1)\<lparr>c_lists := srv_lists crowded_world\<rparr>,
      disk_cache := Some ((mem_cache w1)\<lparr>c_lists := srv_lists crowded_world\<rparr>)\<rparr>"
  have g: "get_current_lists (list_name_of ''p'') w1 = (Inr (srv_lists crowded_world), w1')"
    using assms(2)
    by (simp add: get_current_lists_def bindE_def get_lists_managed [OF f] m modify_def
        save_cache_def returnE_def w1'_def)
  have s: "same_remote crowded_world w1'" using assms(1) by (simp add: same_remote_def w1'_def)
  have "\<forall>l \<in> set (srv_lists crowded_world). srv_items w1' (lid l) = Some []
          \<and> \<not> faults w1' (GetListItems (lid l)) \<and> c_mapping (mem_cache w1') (lid l) \<in> {None, Some []}"
  proof
    fix l assume "l \<in> set (srv_lists crowded_world)"
    then have "4 \<le> lid l \<and> lid l < 301" by (auto simp: crowded_world_def crowded_indexes_props)
    then have "srv_items crowded_world (lid l) = Some []" by (simp add: crowded_world_def)
    moreover have "faults crowded_world = (\<lambda>_. False)" by (simp add: crowded_world_def)
    moreover have "c_mapping (mem_cache w1') = (\<lambda>_. None)" using assms(3) by (simp add: w1'_def)
    ultimately show "srv_items w1' (lid l) = Some []
          \<and> \<not> faults w1' (GetListItems (lid l)) \<and> c_mapping (mem_cache w1') (lid l) \<in> {None, Some []}"
      using s by (simp add: same_remote_def)
  qed
  from list_id_to_domains_empty [OF this] obtain w2 where
    l: "list_id_to_domains (srv_lists crowded_world) w1' =
          (Inr (map (\<lambda>l. (lid l, [])) (srv_lists crowded_world)), w2)" "same_remote w1' w2" by blast
  have "inventory ''p'' many_domains w1 = (Inr (srv_lists crowded_world, many_domains), w2)"
    by (simp add: inventory_def bindE_def g l(1) returnE_def concat_empty
        distinct_remdups_id [OF many_domains_props(1)])
  with same_remote_trans [OF s l(2)] show ?thesis by blast
qed


lemma filter_not_taken: "distinct xs \<Longrightarrow> filter (\<lambda>d. d \<notin> set (take n xs)) xs = drop n xs"
proof -
  assume d: "distinct xs"
  have 1: "filter (\<lambda>d. d \<notin> set (take n xs)) (take n xs) = []"
    by (simp add: filter_empty_conv)
  have 2: "filter (\<lambda>d. d \<notin> set (take n xs)) (drop n xs) = drop n xs"
    using set_take_disj_set_drop_if_distinct [OF d, of n n] by (intro filter_all) auto
  have "filter (\<lambda>d. d \<notin> set (take n xs)) (take n xs @ drop n xs) = drop n xs"
    unfolding filter_append 1 2 by simp
  then show ?thesis by simp
qed

text \<open>The loop body at an index with no list, with domains left to place.\<close>

lemma create_step:
  assumes "name_to_id (indexed_name prefix i) = None" and "remaining \<noteq> []"
    and "length ids < MAX_LISTS" and "distinct remaining"
    and "\<not> faults w (CreateList (indexed_name prefix i) (take 1000 remaining))"
  shows "\<exists>w'. process_index prefix ds name_to_id i (remaining, ids) w =
           (Inr (drop 1000 remaining, ids @ [srv_next_id w]), w')
     \<and> srv_lists w' = srv_lists w @ [\<lparr>lid = srv_next_id w, lname = indexed_name prefix i\<rparr>]
     \<and> srv_items w' = (srv_items w)(srv_next_id w \<mapsto> take 1000 remaining)
     \<and> srv_rules w' = srv_rules w \<and> srv_next_id w' = Suc (srv_next_id w)
     \<and> mutations w' = mutations w @ [CreateList (indexed_name prefix i) (take 1000 remaining)]
     \<and> faults w' = faults w"
proof -
  have t: "take (min 1000 (length remaining)) remaining = take 1000 remaining"
    by (simp add: min_def)
  have f: "filter (\<lambda>d. d \<notin> set (take 1000 remaining)) remaining = drop 1000 remaining"
    using assms(4) by (rule filter_not_taken)
  show ?thesis
    using assms
    by (simp add: process_index_def Let_def t f create_list_def POST_list_def
        issue_def bindE_def modify_def set_mapping_def returnE_def)
qed

text \<open>The loop over indexes whose lists are empty, with no domain left to place.\<close>

lemma visit_steps:
  assumes "\<forall>i \<in> set is. name_to_id (indexed_name prefix i) = Some (g i)
             \<and> srv_items w (g i) = Some [] \<and> \<not> faults w (GetListItems (g i))"
  shows "process_indexes prefix ds name_to_id is ([], ids) w = (Inr ([], ids @ map g is), w)"
  using assms
proof (induction "is" arbitrary: ids)
  case Nil
  then show ?case by (simp add: returnE_def)
next
  case (Cons i "is")
  then have "process_index prefix ds name_to_id i ([], ids) w = (Inr ([], ids @ [g i]), w)"
    by (simp add: process_index_def Let_def get_list_items_def GET_list_items_def bindE_def
        returnE_def)
  with Cons.IH [of "ids @ [g i]"] Cons.prems show ?case
    by (simp add: bindE_def)
qed

lemma crowded_loop:
  assumes s: "same_remote crowded_world w2"
  shows "\<exists>w3. process_indexes ''p'' many_domains (list_name_to_id (srv_lists crowded_world))
           ([1, 2, 3] @ [4..<299]) (many_domains, []) w2 =
           (Inr ([], [301, 302, 303] @ [4..<299]), w3)
     \<and> srv_lists w3 = srv_lists crowded_world
          @ [\<lparr>lid = 301, lname = indexed_name ''p'' 1\<rparr>, \<lparr>lid = 302, lname = indexed_name ''p'' 2\<rparr>,
             \<lparr>lid = 303, lname = indexed_name ''p'' 3\<rparr>]
     \<and> srv_rules w3 = srv_rules crowded_world
     \<and> mutations w3 =
          [CreateList (indexed_name ''p'' 1) (take 1000 many_domains),
           CreateList (indexed_name ''p'' 2) (take 1000 (drop 1000 many_domains)),
           CreateList (indexed_name ''p'' 3) (take 1000 (drop 2000 many_domains))]
     \<and> faults w3 = faults crowded_world"
proof -
  let ?f = "list_name_to_id (srv_lists crowded_world)"
  have nf: "faults crowded_world = (\<lambda>_. False)" by (simp add: crowded_world_def)
  have w2: "srv_lists w2 = srv_lists crowded_world" "srv_items w2 = srv_items crowded_world"
    "srv_rules w2 = srv_rules crowded_world" "srv_next_id w2 = 301" "mutations w2 = []"
    "faults w2 = (\<lambda>_. False)"
    using s by (simp_all add: same_remote_def crowded_world_def)
  have r1: "many_domains \<noteq> []" "distinct many_domains"
    using many_domains_props by auto
  have r2: "drop 1000 many_domains \<noteq> []" "distinct (drop 1000 many_domains)"
    using many_domains_props by auto
  have r3: "drop 1000 (drop 1000 many_domains) \<noteq> []" "distinct (drop 1000 (drop 1000 many_domains))"
    "drop 1000 (drop 1000 (drop 1000 many_domains)) = []"
    using many_domains_props by auto
  from create_step [of ?f "''p''" 1 many_domains "[]" w2 many_domains] r1 w2
  obtain w3 where w3:
    "process_index ''p'' many_domains ?f 1 (many_domains, []) w2 = (Inr (drop 1000 many_domains, [301]), w3)"
    "srv_lists w3 = srv_lists crowded_world @ [\<lparr>lid = 301, lname = indexed_name ''p'' 1\<rparr>]"
    "srv_items w3 = (srv_items crowded_world)(301 \<mapsto> take 1000 many_domains)"
    "srv_rules w3 = srv_rules crowded_world" "srv_next_id w3 = 302"
    "mutations w3 = [CreateList (indexed_name ''p'' 1) (take 1000 many_domains)]"
    "faults w3 = (\<lambda>_. False)"
    by (auto simp: crowded_lookup MAX_LISTS_def)
  from create_step [of ?f "''p''" 2 "drop 1000 many_domains" "[301]" w3 many_domains] r2 w3
  obtain w4 where w4:
    "process_index ''p'' many_domains ?f 2 (drop 1000 many_domains, [301]) w3 =
       (Inr (drop 1000 (drop 1000 many_domains), [301, 302]), w4)"
    "srv_lists w4 = srv_lists crowded_world
       @ [\<lparr>lid = 301, lname = indexed_name ''p'' 1\<rparr>, \<lparr>lid = 302, lname = indexed_name ''p'' 2\<rparr>]"
    "srv_items w4 = (srv_items crowded_world)(301 \<mapsto> take 1000 many_domains,
        302 \<mapsto> take 1000 (drop 1000 many_domains))"
    "srv_rules w4 = srv_rules crowded_world" "srv_next_id w4 = 303"
    "mutations w4 = [CreateList (indexed_name ''p'' 1) (take 1000 many_domains),
        CreateList (indexed_name ''p'' 2) (take 1000 (drop 1000 many_domains))]"
    "faults w4 = (\<lambda>_. False)"
    by (auto simp: crowded_lookup MAX_LISTS_def)
  from create_step [of ?f "''p''" 3 "drop 1000 (drop 1000 many_domains)" "[301, 302]" w4 many_domains]
    r3 w4
  obtain w5 where w5:
    "process_index ''p'' many_domains ?f 3 (drop 1000 (drop 1000 many_domains), [301, 302]) w4 =
       (Inr ([], [301, 302, 303]), w5)"
    "srv_lists w5 = srv_lists crowded_world
       @ [\<lparr>lid = 301, lname = indexed_name ''p'' 1\<rparr>, \<lparr>lid = 302, lname = indexed_name ''p'' 2\<rparr>,
          \<lparr>lid = 303, lname = indexed_name ''p'' 3\<rparr>]"
    "srv_items w5 = (srv_items crowded_world)(301 \<mapsto> take 1000 many_domains,
        302 \<mapsto> take 1000 (drop 1000 many_domains),
        303 \<mapsto> take 1000 (drop 1000 (drop 1000 many_domains)))"
    "srv_rules w5 = srv_rules crowded_world"
    "mutations w5 = [CreateList (indexed_name ''p'' 1) (take 1000 many_domains),
        CreateList (indexed_name ''p'' 2) (take 1000 (drop 1000 many_domains)),
        CreateList (indexed_name ''p'' 3) (take 1000 (drop 1000 (drop 1000 many_domains)))]"
    "faults w5 = (\<lambda>_. False)"
    by (auto simp: crowded_lookup MAX_LISTS_def)
  have si: "srv_items w5 i = Some []" if "4 \<le> i" "i < 299" for i
    using that by (simp add: w5(3) crowded_world_def)
  have "\<forall>i \<in> set [4..<299]. ?f (indexed_name ''p'' i) = Some (id i)
             \<and> srv_items w5 (id i) = Some [] \<and> \<not> faults w5 (GetListItems (id i))"
    by (auto simp add: crowded_lookup si w5(6) simp del: upt_rec_numeral)
  from visit_steps [OF this, of many_domains "[301, 302, 303]"]
  have v: "process_indexes ''p'' many_domains ?f [4..<299] ([], [301, 302, 303]) w5 =
      (Inr ([], [301, 302, 303] @ [4..<299]), w5)"
    by (simp del: upt_rec_numeral)
  have "process_indexes ''p'' many_domains ?f (1 # 2 # 3 # [4..<299]) (many_domains, []) w2 =
           (Inr ([], [301, 302, 303] @ [4..<299]), w5)"
    by (simp only: process_indexes.simps bindE_def w3(1) w4(1) w5(1) v prod.case sum.case)
  then have "process_indexes ''p'' many_domains ?f ([1, 2, 3] @ [4..<299]) (many_domains, []) w2 =
           (Inr ([], [301, 302, 303] @ [4..<299]), w5)"
    by (simp only: append.simps)
  with w5 nf show ?thesis by (intro exI [of _ w5]) (simp del: upt_rec_numeral)
qed

text \<open>The rule is rewritten when the lists in use are not those it references.\<close>

lemma sync_rule_updates:
  assumes "find (\<lambda>rule. rname rule = rule_name_of prefix) rules = Some x"
    and "set ids \<noteq> set (rlists x)" and "rid x \<in> rid ` set (srv_rules w)"
    and "\<not> faults w (UpdateRule (rule_name_of prefix) (rid x) ids)"
  shows "\<exists>w'. sync_rule prefix rules ids w = (Inr (), w') \<and> srv_lists w' = srv_lists w
     \<and> mutations w' = mutations w @ [UpdateRule (rule_name_of prefix) (rid x) ids]"
  using assms
  by (simp add: sync_rule_def Let_def extract_list_ids_def update_rule_def PUT_rule_def issue_def
      bindE_def modify_def save_cache_def returnE_def)

lemma indexed_name_3: "indexed_name ''p'' 3 = ''[p] - 003''"
  by code_simp

text \<open>
  C2 fails on the number of lists. The remote holds 297 lists, for the indexes 4 to
  300, all referenced by the rule, and 2001 domains are desired. No list is an
  orphan and 297 is below \<open>MAX_LISTS\<close>, so the pass goes on; the loop runs over the
  indexes 1 to 298, creates the lists 001, 002 and 003 and returns. The remote then
  holds 300 lists under the managed prefix: the check before a creation counts the
  lists appended in the loop so far, not the lists on the remote.
\<close>

theorem list_count_exceeds_limit:
  "fst (update_resources ''p'' many_domains crowded_world) = Inr ()
   \<and> length (managed_lists ''p'' crowded_world) = 297
   \<and> mutations (snd (update_resources ''p'' many_domains crowded_world)) =
       [CreateList ''[p] - 001'' (take 1000 many_domains),
        CreateList ''[p] - 002'' (take 1000 (drop 1000 many_domains)),
        CreateList ''[p] - 003'' (take 1000 (drop 2000 many_domains)),
        UpdateRule ''[p] Block Ads'' 0 ([301, 302, 303] @ [4..<299])]
   \<and> length (managed_lists ''p'' (snd (update_resources ''p'' many_domains crowded_world))) = 300
   \<and> MAX_LISTS < 300"
proof -
  from crowded_reclaim obtain w1 where
    w1: "reclaim ''p'' crowded_world = (Inr (srv_rules crowded_world), w1)"
      "same_remote crowded_world w1" "c_lists (mem_cache w1) = []"
      "c_mapping (mem_cache w1) = (\<lambda>_. None)"
    by (elim exE conjE) (rule that)
  from crowded_inventory [OF w1(2,3,4)] obtain w2 where
    w2: "inventory ''p'' many_domains w1 = (Inr (srv_lists crowded_world, many_domains), w2)"
      "same_remote crowded_world w2"
    by (elim exE conjE) (rule that)
  from crowded_loop [OF w2(2)] obtain w3 where
    w3: "process_indexes ''p'' many_domains (list_name_to_id (srv_lists crowded_world))
           ([1, 2, 3] @ [4..<299]) (many_domains, []) w2 =
           (Inr ([], [301, 302, 303] @ [4..<299]), w3)"
      "srv_lists w3 = srv_lists crowded_world
          @ [\<lparr>lid = 301, lname = indexed_name ''p'' 1\<rparr>, \<lparr>lid = 302, lname = indexed_name ''p'' 2\<rparr>,
             \<lparr>lid = 303, lname = indexed_name ''p'' 3\<rparr>]"
      "srv_rules w3 = srv_rules crowded_world"
      "mutations w3 =
          [CreateList (indexed_name ''p'' 1) (take 1000 many_domains),
           CreateList (indexed_name ''p'' 2) (take 1000 (drop 1000 many_domains)),
           CreateList (indexed_name ''p'' 3) (take 1000 (drop 2000 many_domains))]"
      "faults w3 = faults crowded_world"
    by (elim exE conjE) (rule that)
  have a: "assign_domains ''p'' many_domains w1 = (Inr ([301, 302, 303] @ [4..<299]), w3)"
    by (simp only: assign_domains_def bindE_def w2(1) Let_def liftE_def many_domains_props(2)
        crowded_all_indexes w3(1) returnE_def prod.case sum.case fst_conv snd_conv)
  let ?x = "\<lparr>rid = 0, rname = ''[p] Block Ads'', rlists = crowded_indexes\<rparr>"
  have x: "rid ?x = 0" "rlists ?x = crowded_indexes" by simp_all
  have f1: "find (\<lambda>rule. rname rule = rule_name_of ''p'') (srv_rules crowded_world) = Some ?x"
    by (simp add: crowded_world_def rule_name_of_def)
  have "(301::nat) \<in> set ([301, 302, 303] @ [4..<299])" by (simp del: upt_rec_numeral)
  moreover have "(301::nat) \<notin> set crowded_indexes" by (simp add: crowded_indexes_props)
  ultimately have "set ([301, 302, 303] @ [4..<299]) \<noteq> set crowded_indexes" by metis
  then have f2: "set ([301, 302, 303] @ [4..<299]) \<noteq> set (rlists ?x)" unfolding x .
  have "(0::nat) \<in> rid ` set (srv_rules w3)" by (simp add: w3(3) crowded_world_def)
  then have f3: "rid ?x \<in> rid ` set (srv_rules w3)" unfolding x .
  have "\<not> faults w3 (UpdateRule (rule_name_of ''p'') 0 ([301, 302, 303] @ [4..<299]))"
    by (simp add: w3(5) crowded_world_def)
  then have f4: "\<not> faults w3 (UpdateRule (rule_name_of ''p'') (rid ?x) ([301, 302, 303] @ [4..<299]))"
    unfolding x .
  have "\<exists>w4. sync_rule ''p'' (srv_rules crowded_world) ([301, 302, 303] @ [4..<299]) w3 = (Inr (), w4)
      \<and> srv_lists w4 = srv_lists w3
      \<and> mutations w4 = mutations w3 @ [UpdateRule (rule_name_of ''p'') 0 ([301, 302, 303] @ [4..<299])]"
    using sync_rule_updates [OF f1 f2 f3 f4] unfolding x .
  then obtain w4 where
    w4: "sync_rule ''p'' (srv_rules crowded_world) ([301, 302, 303] @ [4..<299]) w3 = (Inr (), w4)"
      "srv_lists w4 = srv_lists w3"
      "mutations w4 = mutations w3 @ [UpdateRule (rule_name_of ''p'') 0 ([301, 302, 303] @ [4..<299])]"
    by (elim exE conjE) (rule that)
  have g: "\<not> 300000 < length many_domains" "\<not> MAX_DOMAINS < length many_domains"
    by (simp_all add: many_domains_props(2) MAX_DOMAINS_def MAX_LISTS_def)
  have run: "update_resources ''p'' many_domains crowded_world = (Inr (), w4)"
    by (simp only: update_resources_def g if_False bindE_def w1(1) a w4(1) prod.case sum.case)
  have l: "srv_lists w4 = map (\<lambda>i. \<lparr>lid = (if i < 4 then 300 + i else i), lname = indexed_name ''p'' i\<rparr>)
      (crowded_indexes @ [1, 2, 3])"
    by (simp add: w4(2) w3(2) crowded_world_def crowded_indexes_props)
  have "managed_lists ''p'' w4 = srv_lists w4"
    unfolding managed_lists_def l by (rule managed_indexed)
  then have n: "length (managed_lists ''p'' w4) = 300"
    by (simp add: l crowded_indexes_props)
  have "length (srv_lists crowded_world) = 297"
    by (simp add: crowded_world_def crowded_indexes_props)
  then have n0: "length (managed_lists ''p'' crowded_world) = 297"
    by (simp only: crowded_managed)
  have m: "mutations w4 =
       [CreateList ''[p] - 001'' (take 1000 many_domains),
        CreateList ''[p] - 002'' (take 1000 (drop 1000 many_domains)),
        CreateList ''[p] - 003'' (take 1000 (drop 2000 many_domains)),
        UpdateRule ''[p] Block Ads'' 0 ([301, 302, 303] @ [4..<299])]"
    by (simp add: w4(3) w3(4) indexed_name_p indexed_name_3 rule_name_of_def del: upt_rec_numeral)
  from run n n0 m show ?thesis by (simp add: MAX_LISTS_def del: upt_rec_numeral)
qed

section \<open>Coverage and idempotence with a cache that is out of date\<close>

lemmas main_defs = eval_defs main_run_def load_cache_def

lemma stale_first_run:
  "main_run False ''p'' [''a.com''] stale_cache_world = (Inr (), after_stale_run)"
  by (simp add: main_defs stale_cache_world_def after_stale_run_def fun_eq_iff)

lemma stale_second_run:
  "fst (main_run False ''p'' [''a.com''] after_stale_run) = Inr ()
   \<and> mutations (snd (main_run False ''p'' [''a.com''] after_stale_run)) =
       [UpdateList 0 [''b.com''] [], UpdateList 0 [] [''a.com'']]"
  by (simp add: main_defs stale_cache_world_def after_stale_run_def)

text \<open>
  C1 on the code. The desired set is \<open>a.com\<close>. The cache says list 0 holds it, so
  \<open>remaining_domains\<close> is empty; the loop reads the remote list, which holds
  \<open>b.com\<close> only, removes \<open>b.com\<close> and has nothing to add. The pass returns
  normally, the rule references list 0, and list 0 is empty: \<open>a.com\<close> is in no
  list in use.
\<close>

theorem stale_cache_loses_domain:
  "main_run False ''p'' [''a.com''] stale_cache_world = (Inr (), after_stale_run)
   \<and> srv_rules after_stale_run = [\<lparr>rid = 1, rname = ''[p] Block Ads'', rlists = [0]\<rparr>]
   \<and> srv_items after_stale_run 0 = Some []"
  using stale_first_run by (simp add: after_stale_run_def stale_cache_world_def)

text \<open>
  C3 on the code. The same pass is run again, nothing on the remote having changed
  since the first run. The first run has written the true content of list 0 into
  the cache, so the second run finds \<open>a.com\<close> unassigned and issues an update of
  list 0.
\<close>

theorem stale_cache_second_run_mutates:
  "fst (main_run False ''p'' [''a.com''] stale_cache_world) = Inr ()
   \<and> fst (main_run False ''p'' [''a.com'']
          (snd (main_run False ''p'' [''a.com''] stale_cache_world))) = Inr ()
   \<and> issued (snd (main_run False ''p'' [''a.com''] stale_cache_world))
        (snd (main_run False ''p'' [''a.com'']
          (snd (main_run False ''p'' [''a.com''] stale_cache_world)))) =
       [UpdateList 0 [] [''a.com'']]"
  using stale_second_run
  by (simp add: stale_first_run issued_def) (simp add: after_stale_run_def)

end
